theory Spec2Isabelle
  imports Complex_Main
begin

section \<open>Syntax tree\<close>

text \<open>
  The warnings module of the JavaScript lint works on the parse tree built by the
  \<^verbatim>\<open>pyspidermonkey\<close> extension. A node has a \<^verbatim>\<open>kind\<close> (a member of \<^verbatim>\<open>tok\<close>), an
  \<^verbatim>\<open>opcode\<close> (a member of \<^verbatim>\<open>op\<close>), an ordered list \<^verbatim>\<open>kids\<close> in which an absent child is
  \<^verbatim>\<open>None\<close>, and the payload attributes \<^verbatim>\<open>atom\<close>, \<^verbatim>\<open>dval\<close> and \<^verbatim>\<open>end_comma\<close>. The kinds
  and opcodes listed are those the module names; every other one is \<open>OtherTok\<close> or
  \<open>OtherOp\<close>.
\<close>

datatype tok =
    LC | RC | LP | RB | IF | SWITCH | CASE | DEFAULT | BREAK | CONTINUE | WITH
  | RETURN | THROW | TRY | CATCH | RESERVED | LEXICALSCOPE | FOR | WHILE | DO
  | EQOP | RELOP | PRIMARY | NUMBER | STRING | NAME | COLON | OBJECT | ASSIGN
  | DOT | INC | DEC | SEMI | COMMA | FUNCTION | PLUS | MINUS | VAR | UNARYOP
  | OtherTok string

datatype op =
    OP_EQ | OP_NULL | OP_TRUE | OP_FALSE | OP_NAME | OP_REGEXP | OP_SETNAME
  | OP_NOP | OP_CALL | OP_GETPROP | OP_VOID | OtherOp string

datatype node =
  Node (kind: tok) (opcode: op) (kids: "node option list")
       (atom: string) (dval: real) (end_comma: bool)

text \<open>
  A Python node object also carries \<^verbatim>\<open>parent\<close> and \<^verbatim>\<open>node_index\<close>. The value a function
  of the module receives is therefore a node together with its chain of ancestors: the
  subtree, then for each ancestor (nearest first) the ancestor's subtree and the index of
  the slot the walk came up through. The root has the empty chain, its \<^verbatim>\<open>parent\<close> is
  \<^verbatim>\<open>None\<close>.
\<close>

type_synonym lnode = "node \<times> (node \<times> nat) list"

definition parent :: "lnode \<Rightarrow> lnode option" where
  "parent l = (case snd l of [] \<Rightarrow> None | (p, i) # anc \<Rightarrow> Some (p, anc))"

definition node_index :: "lnode \<Rightarrow> nat option" where
  "node_index l = (case snd l of [] \<Rightarrow> None | (p, i) # anc \<Rightarrow> Some i)"

text \<open>\<^verbatim>\<open>node.kids\<close>: each child that is present knows its parent and its index.\<close>

definition lkids :: "lnode \<Rightarrow> lnode option list" where
  "lkids l = map (\<lambda>(i, k). map_option (\<lambda>c. (c, (fst l, i) # snd l)) k)
                 (enumerate 0 (kids (fst l)))"

text \<open>
  The exceptions the module can raise: \<^verbatim>\<open>LintWarning\<close> is how a detector reports a
  finding (its argument is the node the warning points at); the others are Python's own,
  raised when an attribute of \<^verbatim>\<open>None\<close> is read, a tuple unpacking has the wrong
  length, an \<^verbatim>\<open>assert\<close> fails, an index is out of range or \<^verbatim>\<open>set.remove\<close> misses.
\<close>

datatype exn =
    LintWarning "lnode option"
  | AttributeError | ValueError | AssertionError | IndexError | KeyError

section \<open>Exit points\<close>

text \<open>
  An exit point is \<^verbatim>\<open>None\<close> (control leaves the statement normally) or one of
  \<^verbatim>\<open>tok.BREAK\<close>, \<^verbatim>\<open>tok.RETURN\<close>, \<^verbatim>\<open>tok.THROW\<close>.
\<close>

type_synonym exit_points = "tok option set"

text \<open>
  A child is smaller than its node: what the termination of the analyzer rests on.
\<close>

lemma size_list_lkids_aux:
  "size_list (size_option (\<lambda>c. size (fst c)))
     (map (\<lambda>(i, k). map_option (\<lambda>c. (c, (p, i) # anc)) k) (enumerate n ks))
   = size_list (size_option size) ks"
proof (induction ks arbitrary: n)
  case Nil
  show ?case by simp
next
  case (Cons k ks)
  then show ?case by (cases k) simp_all
qed

lemma lkids_size_list:
  "size_list (size_option (\<lambda>c. size (fst c))) (lkids l) < size (fst l)"
  unfolding lkids_def size_list_lkids_aux by (cases "fst l") simp

lemma size_list_member:
  "Some c \<in> set ks \<Longrightarrow> f c < size_list (size_option f) ks"
  by (induction ks) auto

lemma lkids_size: "Some c \<in> set (lkids l) \<Longrightarrow> size (fst c) < size (fst l)"
  using size_list_member [of c "lkids l" "\<lambda>c. size (fst c)"] lkids_size_list [of l]
  by simp

lemma lkids_eq_sizeD:
  "lkids (a, b) = ks \<Longrightarrow>
     list_all (\<lambda>c. case c of None \<Rightarrow> True | Some c' \<Rightarrow> size (fst c') < size a) ks"
  using lkids_size [of _ "(a, b)"]
  by (auto simp: list_all_iff split: option.splits)

lemma lkids_size_list_trans:
  "size (fst l) < n \<Longrightarrow> size_list (size_option (\<lambda>c. size (fst c))) (lkids l) < n"
  using lkids_size_list [of l] by simp

lemma list_all_lastD:
  "list_all P xs \<Longrightarrow> xs \<noteq> [] \<Longrightarrow> P (last xs)"
  by (simp add: list_all_iff)

text \<open>
  The head of the \<^verbatim>\<open>tok.TRY\<close> branch, up to the last \<^verbatim>\<open>assert\<close>: it unpacks the three
  slots of the node and walks down the second one to the block of the handler. It gives
  the try slot, the handler's block and the finally slot.
\<close>

definition try_unpack :: "lnode \<Rightarrow> exn + lnode option \<times> lnode \<times> lnode option" where
  "try_unpack node =
    (case lkids node of
       [try_, catch_, finally_] \<Rightarrow>
         (case catch_ of
            None \<Rightarrow> Inl AttributeError
          | Some c1 \<Rightarrow>
             if kind (fst c1) \<noteq> RESERVED then Inl AssertionError
             else
               (case lkids c1 of
                  [catch2] \<Rightarrow>
                    (case catch2 of
                       None \<Rightarrow> Inl AttributeError
                     | Some c2 \<Rightarrow>
                        if kind (fst c2) \<noteq> LEXICALSCOPE then Inl AssertionError
                        else
                          (case lkids c2 of
                             [catch3] \<Rightarrow>
                               (case catch3 of
                                  None \<Rightarrow> Inl AttributeError
                                | Some c3 \<Rightarrow>
                                   if kind (fst c3) \<noteq> CATCH then Inl AssertionError
                                   else
                                     (case lkids c3 of
                                        [ignored1, ignored2, catch4] \<Rightarrow>
                                          (case catch4 of
                                             None \<Rightarrow> Inl AttributeError
                                           | Some c4 \<Rightarrow>
                                              if kind (fst c4) \<noteq> LC then Inl AssertionError
                                              else Inr (try_, c4, finally_))
                                      | _ \<Rightarrow> Inl ValueError))
                           | _ \<Rightarrow> Inl ValueError))
                | _ \<Rightarrow> Inl ValueError))
     | _ \<Rightarrow> Inl ValueError)"

lemma try_unpack_Inr_iff:
  "try_unpack node = Inr (t, c, f) \<longleftrightarrow>
     (\<exists>c1 c2 c3 ignored1 ignored2.
        lkids node = [t, Some c1, f] \<and>
        kind (fst c1) = RESERVED \<and> lkids c1 = [Some c2] \<and>
        kind (fst c2) = LEXICALSCOPE \<and> lkids c2 = [Some c3] \<and>
        kind (fst c3) = CATCH \<and> lkids c3 = [ignored1, ignored2, Some c] \<and>
        kind (fst c) = LC)"
  unfolding try_unpack_def
  by (auto split: list.splits option.splits if_splits)

lemma try_unpack_size:
  assumes "try_unpack node = Inr (t, c, f)"
  shows "size (fst c) < size (fst node)"
    and "t = Some x \<Longrightarrow> size (fst x) < size (fst node)"
    and "f = Some y \<Longrightarrow> size (fst y) < size (fst node)"
proof -
  from assms obtain c1 c2 c3 ignored1 ignored2 where
    k: "lkids node = [t, Some c1, f]" "lkids c1 = [Some c2]" "lkids c2 = [Some c3]"
       "lkids c3 = [ignored1, ignored2, Some c]"
    unfolding try_unpack_Inr_iff by blast
  have "size (fst c) < size (fst c3)" using k(4) lkids_size [of c c3] by simp
  also have "\<dots> < size (fst c2)" using k(3) lkids_size [of c3 c2] by simp
  also have "\<dots> < size (fst c1)" using k(2) lkids_size [of c2 c1] by simp
  also have "\<dots> < size (fst node)" using k(1) lkids_size [of c1 node] by simp
  finally show "size (fst c) < size (fst node)" .
  show "t = Some x \<Longrightarrow> size (fst x) < size (fst node)"
    using k(1) lkids_size [of x node] by simp
  show "f = Some y \<Longrightarrow> size (fst y) < size (fst node)"
    using k(1) lkids_size [of y node] by simp
qed

text \<open>
  \<^verbatim>\<open>_get_exit_points(node)\<close>. The two \<^verbatim>\<open>for\<close> loops are \<open>lc_loop\<close> (over the
  statements of a block, with the running set) and \<open>switch_loop\<close> (over the cases of a
  switch, with the running set and the two flags). A node object is true in a condition
  and \<^verbatim>\<open>None\<close> is false, so \<^verbatim>\<open>if kid:\<close> tests that the slot is filled. Calling the
  function on \<^verbatim>\<open>None\<close> reads \<^verbatim>\<open>None.kind\<close>, an \<^verbatim>\<open>AttributeError\<close>.
\<close>

function get_exit_points :: "lnode \<Rightarrow> exn + exit_points"
  and lc_loop :: "lnode option list \<Rightarrow> exit_points \<Rightarrow> exn + exit_points"
  and switch_loop :: "lnode option list \<Rightarrow> exit_points \<times> bool \<times> bool
                        \<Rightarrow> exn + exit_points \<times> bool \<times> bool"
where
  "get_exit_points node =
    (if kind (fst node) = LC then lc_loop (lkids node) {None}
     else if kind (fst node) = IF then
       (case lkids node of
          [cond_, if_, else_] \<Rightarrow>
            (case if_ of
               None \<Rightarrow> Inl AttributeError
             | Some i \<Rightarrow>
                (case get_exit_points i of
                   Inl e \<Rightarrow> Inl e
                 | Inr exit_points \<Rightarrow>
                    (case else_ of
                       None \<Rightarrow> Inr exit_points
                     | Some el \<Rightarrow>
                        (case get_exit_points el of
                           Inl e \<Rightarrow> Inl e
                         | Inr else_points \<Rightarrow> Inr (exit_points \<union> else_points)))))
        | _ \<Rightarrow> Inl ValueError)
     else if kind (fst node) = SWITCH then
       (case lkids node of
          [switch_var, switch_stmts] \<Rightarrow>
            (case switch_stmts of
               None \<Rightarrow> Inl AttributeError
             | Some stmts \<Rightarrow>
                (case switch_loop (lkids stmts) ({None}, False, True) of
                   Inl e \<Rightarrow> Inl e
                 | Inr (exit_points, switch_has_default, switch_has_final_fallthru) \<Rightarrow>
                    (if None \<notin> exit_points then Inl KeyError
                     else
                       let exit_points = exit_points - {None};
                           exit_points =
                             (if Some BREAK \<in> exit_points
                              then insert None (exit_points - {Some BREAK})
                              else exit_points);
                           exit_points =
                             (if \<not> switch_has_default then insert None exit_points
                              else exit_points);
                           exit_points =
                             (if switch_has_final_fallthru then insert None exit_points
                              else exit_points)
                       in Inr exit_points)))
        | _ \<Rightarrow> Inl ValueError)
     else if kind (fst node) = BREAK then Inr {Some BREAK}
     else if kind (fst node) = WITH then
       (case lkids node of
          [] \<Rightarrow> Inl IndexError
        | k # ks \<Rightarrow>
            (case last (k # ks) of
               None \<Rightarrow> Inl AttributeError
             | Some body \<Rightarrow> get_exit_points body))
     else if kind (fst node) = RETURN then Inr {Some RETURN}
     else if kind (fst node) = THROW then Inr {Some THROW}
     else if kind (fst node) = TRY then
       (case try_unpack node of
          Inl e \<Rightarrow> Inl e
        | Inr (try_, catch_, finally_) \<Rightarrow>
            (case try_ of
               None \<Rightarrow> Inl AttributeError
             | Some t \<Rightarrow>
                (case get_exit_points t of
                   Inl e \<Rightarrow> Inl e
                 | Inr try_points \<Rightarrow>
                    (case get_exit_points catch_ of
                       Inl e \<Rightarrow> Inl e
                     | Inr catch_points \<Rightarrow>
                        (let exit_points = try_points \<union> catch_points
                         in case finally_ of
                              None \<Rightarrow> Inr exit_points
                            | Some f \<Rightarrow>
                               (case get_exit_points f of
                                  Inl e \<Rightarrow> Inl e
                                | Inr finally_exit_points \<Rightarrow>
                                   (if None \<in> finally_exit_points
                                    then Inr (exit_points \<union> (finally_exit_points - {None}))
                                    else Inr ((if None \<in> exit_points
                                               then exit_points - {None}
                                               else exit_points)
                                              \<union> finally_exit_points))))))))
     else Inr {None})"
| "lc_loop [] exit_points = Inr exit_points"
| "lc_loop (kid # rest) exit_points =
    (let exit_points = (if None \<in> exit_points then exit_points - {None} else exit_points)
     in case kid of
          None \<Rightarrow> lc_loop rest exit_points
        | Some k \<Rightarrow>
           (case get_exit_points k of
              Inl e \<Rightarrow> Inl e
            | Inr kid_points \<Rightarrow> lc_loop rest (exit_points \<union> kid_points)))"
| "switch_loop [] st = Inr st"
| "switch_loop (c # rest) st =
    (case st of (exit_points, switch_has_default, switch_has_final_fallthru) \<Rightarrow>
      (case c of
         None \<Rightarrow> Inl AttributeError
       | Some n \<Rightarrow>
          (case lkids n of
             [case_val, case_stmt] \<Rightarrow>
               (case case_stmt of
                  None \<Rightarrow> Inl AttributeError
                | Some b \<Rightarrow>
                   (case get_exit_points b of
                      Inl e \<Rightarrow> Inl e
                    | Inr case_exit_points \<Rightarrow>
                       switch_loop rest
                         (exit_points \<union> case_exit_points,
                          switch_has_default \<or> kind (fst n) = DEFAULT,
                          None \<in> case_exit_points)))
           | _ \<Rightarrow> Inl ValueError)))"
  by pat_completeness auto
termination
  apply (relation "measure (\<lambda>x. case x of
            Inl l \<Rightarrow> size (fst l)
          | Inr (Inl (ks, _)) \<Rightarrow> size_list (size_option (\<lambda>c. size (fst c))) ks
          | Inr (Inr (ks, _)) \<Rightarrow> size_list (size_option (\<lambda>c. size (fst c))) ks)")
  apply (auto simp: lkids_size_list
              dest: try_unpack_size(1) try_unpack_size(2) [OF _ refl]
                    try_unpack_size(3) [OF _ refl]
              dest!: lkids_eq_sizeD intro!: lkids_size_list_trans split: if_splits)
  apply (drule (1) list_all_lastD)
  apply simp
  done

declare get_exit_points.simps [simp del]

section \<open>Detectors\<close>

text \<open>
  A detector returns normally when it has nothing to report and raises
  \<^verbatim>\<open>LintWarning\<close> with the node to point at otherwise.
\<close>

text \<open>
  \<^verbatim>\<open>comparison_type_conv\<close>, registered for \<^verbatim>\<open>(tok.EQOP, op.EQ)\<close>. The loop stops at the
  first operand that raises. \<^verbatim>\<open>not kid.dval\<close> holds when the number is zero,
  \<^verbatim>\<open>not kid.atom\<close> when the string is empty.
\<close>

fun comparison_type_conv_loop :: "lnode option list \<Rightarrow> exn + unit" where
  "comparison_type_conv_loop [] = Inr ()"
| "comparison_type_conv_loop (kid # rest) =
    (case kid of
       None \<Rightarrow> Inl AttributeError
     | Some k \<Rightarrow>
        if kind (fst k) = PRIMARY \<and> opcode (fst k) \<in> {OP_NULL, OP_TRUE, OP_FALSE}
        then Inl (LintWarning (Some k))
        else if kind (fst k) = NUMBER \<and> dval (fst k) = 0
        then Inl (LintWarning (Some k))
        else if kind (fst k) = STRING \<and> atom (fst k) = []
        then Inl (LintWarning (Some k))
        else comparison_type_conv_loop rest)"

definition comparison_type_conv :: "lnode \<Rightarrow> exn + unit" where
  "comparison_type_conv node = comparison_type_conv_loop (lkids node)"

text \<open>
  \<^verbatim>\<open>ambiguous_else_stmt\<close>, registered for \<^verbatim>\<open>tok.IF\<close>. The \<^verbatim>\<open>while tmp:\<close> walk reads
  \<^verbatim>\<open>tmp.parent.kind\<close> before it moves up, so at a root that is not a block it raises
  \<^verbatim>\<open>AttributeError\<close>.
\<close>

function ambiguous_else_loop :: "lnode option \<Rightarrow> lnode \<Rightarrow> exn + unit" where
  "ambiguous_else_loop None else_stmt = Inr ()"
| "ambiguous_else_loop (Some tmp) else_stmt =
    (if kind (fst tmp) = LC then Inr ()
     else
       (case parent tmp of
          None \<Rightarrow> Inl AttributeError
        | Some p \<Rightarrow>
           if kind (fst p) = IF \<and> node_index tmp = Some 1
           then Inl (LintWarning (Some else_stmt))
           else ambiguous_else_loop (parent tmp) else_stmt))"
  by pat_completeness auto
termination
  by (relation "measure (\<lambda>(tmp, e). case tmp of None \<Rightarrow> 0 | Some t \<Rightarrow> Suc (length (snd t)))")
     (auto simp: parent_def split: list.splits option.splits)

declare ambiguous_else_loop.simps [simp del]

definition ambiguous_else_stmt :: "lnode \<Rightarrow> exn + unit" where
  "ambiguous_else_stmt node =
    (case lkids node of
       [condition, if_, else_] \<Rightarrow>
         (case else_ of
            None \<Rightarrow> Inr ()
          | Some e \<Rightarrow> ambiguous_else_loop (Some node) e)
     | _ \<Rightarrow> Inl ValueError)"

text \<open>\<^verbatim>\<open>node.kids[i]\<close> for an index that is not negative.\<close>

definition kids_at :: "lnode \<Rightarrow> nat \<Rightarrow> exn + lnode option" where
  "kids_at node i = (if i < length (lkids node) then Inr (lkids node ! i) else Inl IndexError)"

text \<open>\<^verbatim>\<open>missing_break\<close>, registered for \<^verbatim>\<open>tok.CASE\<close> and \<^verbatim>\<open>tok.DEFAULT\<close>.\<close>

definition missing_break :: "lnode \<Rightarrow> exn + unit" where
  "missing_break node =
    (case (parent node, node_index node) of
       (Some p, Some i) \<Rightarrow>
         if int i = int (length (lkids p)) - 1 then Inr ()
         else
           (case kids_at node 1 of
              Inl e \<Rightarrow> Inl e
            | Inr None \<Rightarrow> Inl AttributeError
            | Inr (Some case_contents) \<Rightarrow>
               if kind (fst case_contents) \<noteq> LC then Inl AssertionError
               else if lkids case_contents = [] then Inr ()
               else
                 (case get_exit_points case_contents of
                    Inl e \<Rightarrow> Inl e
                  | Inr exit_points \<Rightarrow>
                     if None \<in> exit_points
                     then (case kids_at p (i + 1) of
                             Inl e \<Rightarrow> Inl e
                           | Inr next_case \<Rightarrow> Inl (LintWarning next_case))
                     else Inr ()))
     | _ \<Rightarrow> Inl AttributeError)"

text \<open>\<^verbatim>\<open>s.endswith(suffix)\<close>\<close>

definition endswith :: "string \<Rightarrow> string \<Rightarrow> bool" where
  "endswith s suffix =
     (length suffix \<le> length s \<and> drop (length s - length suffix) s = suffix)"

text \<open>\<^verbatim>\<open>trailing_decimal_point\<close>, registered for \<^verbatim>\<open>tok.NUMBER\<close>.\<close>

definition trailing_decimal_point :: "lnode \<Rightarrow> exn + unit" where
  "trailing_decimal_point node =
    (case parent node of
       None \<Rightarrow> Inl AttributeError
     | Some p \<Rightarrow>
        if kind (fst p) = DOT then Inl (LintWarning (Some node))
        else if endswith (atom (fst node)) ''.'' then Inl (LintWarning (Some node))
        else Inr ())"

section \<open>Registration\<close>

text \<open>The dictionary \<^verbatim>\<open>warnings\<close>: the name of each warning and its message.\<close>

definition warnings :: "(string \<times> string) list" where
  "warnings =
    [
     (''comparison_type_conv'',
      ''comparisons against null, 0, true, false, or an empty string allowing implicit type conversion (use === or !==)''),
     (''default_not_at_end'',
      ''the default case is not at the end of the switch statement''),
     (''duplicate_case_in_switch'',
      ''duplicate case in switch statement''),
     (''missing_default_case'',
      ''missing default case in switch statement''),
     (''with_statement'',
      ''with statement hides undeclared variables; use temporary variable instead''),
     (''useless_comparison'',
      ''useless comparison; comparing identical expressions''),
     (''use_of_label'',
      ''use of label''),
     (''misplaced_regex'',
      ''regular expressions should be preceded by a left parenthesis, assignment, colon, or comma''),
     (''assign_to_function_call'',
      ''assignment to a function call''),
     (''ambiguous_else_stmt'',
      ''the else statement could be matched with one of multiple if statements (use curly braces to indicate intent''),
     (''block_without_braces'',
      ''block statement without curly braces''),
     (''ambiguous_nested_stmt'',
      ''block statements containing block statements should use curly braces to resolve ambiguity''),
     (''inc_dec_within_stmt'',
      ''increment (++) and decrement (--) operators used as part of greater statement''),
     (''comma_separated_stmts'',
      ''multiple statements separated by commas (use semicolons?)''),
     (''empty_statement'',
      ''empty statement or extra semicolon''),
     (''missing_break'',
      ''missing break statement''),
     (''missing_break_for_last_case'',
      ''missing break statement for last case in switch''),
     (''multiple_plus_minus'',
      ''unknown order of operations for successive plus (e.g. x+++y) or minus (e.g. x---y) signs''),
     (''useless_assign'',
      ''useless assignment''),
     (''unreachable_code'',
      ''unreachable code''),
     (''meaningless_block'',
      ''meaningless block; curly braces have no impact''),
     (''useless_void'',
      ''use of the void type may be unnecessary (void is always undefined)''),
     (''parseint_missing_radix'',
      ''parseInt missing radix parameter''),
     (''leading_decimal_point'',
      ''leading decimal point may indicate a number or an object member''),
     (''trailing_decimal_point'',
      ''trailing decimal point may indicate a number or an object member''),
     (''octal_number'',
      ''leading zeros make an octal number''),
     (''trailing_comma_in_array'',
      ''extra comma is not recommended in array initializers''),
     (''useless_quotes'',
      ''the quotation marks are unnecessary''),
     (''mismatch_ctrl_comments'',
      ''mismatched control comment; \"ignore\" and \"end\" control comments must have a one-to-one correspondence''),
     (''redeclared_var'',
      ''redeclaration of {0} {1}''),
     (''undeclared_identifier'',
      ''undeclared identifier: {0}''),
     (''unreferenced_identifier'',
      ''identifier is declared but never referenced: {0}''),
     (''jsl_cc_not_understood'',
      ''couldn't understand control comment using /*jsl:keyword*/ syntax''),
     (''nested_comment'',
      ''nested comment''),
     (''legacy_cc_not_understood'',
      ''couldn't understand control comment using /*@keyword@*/ syntax''),
     (''var_hides_arg'',
      ''variable {0} hides argument''),
     (''duplicate_formal'',
      ''TODO''),
     (''missing_semicolon'',
      ''missing semicolon''),
     (''ambiguous_newline'',
      ''unexpected end of line; it is ambiguous whether these lines are part of the same statement''),
     (''missing_option_explicit'',
      ''the \"option explicit\" control comment is missing''),
     (''partial_option_explicit'',
      ''the \"option explicit\" control comment, if used, must be in the first script tag''),
     (''dup_option_explicit'',
      ''duplicate \"option explicit\" control comment''),
     (''invalid_fallthru'',
      ''unexpected \"fallthru\" control comment''),
     (''invalid_pass'',
      ''unexpected \"pass\" control comment'')
    ]"

text \<open>
  What a detector asks to be called for: a kind \<^verbatim>\<open>tok.KIND\<close>, or a kind with an opcode
  \<^verbatim>\<open>(tok.KIND, op.OPCODE)\<close>.
\<close>

datatype key = Kind tok | KindOp tok op

text \<open>\<^verbatim>\<open>s.rstrip('_')\<close>\<close>

definition rstrip_underscore :: "string \<Rightarrow> string" where
  "rstrip_underscore s = rev (dropWhile (\<lambda>c. c = CHR ''_'') (rev s))"

text \<open>
  \<^verbatim>\<open>lookfor(*args)(fn)\<close>, with the list \<^verbatim>\<open>_visitors\<close> passed in and returned. A function
  is known by its name; its warning is the name without the underscores at its end. The
  \<^verbatim>\<open>assert\<close> fails when the dictionary has no such key.
\<close>

definition lookfor ::
  "key list \<Rightarrow> string \<Rightarrow> (key \<times> string) list \<Rightarrow> exn + (key \<times> string) list" where
  "lookfor args func_name visitors =
    (let warning = rstrip_underscore func_name
     in if warning \<notin> fst ` set warnings then Inl AssertionError
        else Inr (visitors @ map (\<lambda>arg. (arg, func_name)) args))"

text \<open>
  The decorated functions of the module in the order of the file, each with the arguments
  of its \<^verbatim>\<open>@lookfor\<close>. The two functions whose decorator is commented out
  (\<^verbatim>\<open>meaningless_block\<close>, \<^verbatim>\<open>meaningless_blocK_\<close>) are not decorated; \<^verbatim>\<open>_block_nodes\<close> is
  written out.
\<close>

definition decorated :: "(key list \<times> string) list" where
  "decorated =
    [
     ([KindOp EQOP OP_EQ], ''comparison_type_conv''),
     ([Kind DEFAULT], ''default_not_at_end''),
     ([Kind CASE], ''duplicate_case_in_switch''),
     ([Kind SWITCH], ''missing_default_case''),
     ([Kind WITH], ''with_statement''),
     ([Kind EQOP, Kind RELOP], ''useless_comparison''),
     ([KindOp COLON OP_NAME], ''use_of_label''),
     ([KindOp OBJECT OP_REGEXP], ''misplaced_regex''),
     ([Kind ASSIGN], ''assign_to_function_call''),
     ([Kind IF], ''ambiguous_else_stmt''),
     ([Kind IF, Kind WHILE, Kind DO, Kind FOR, Kind WITH], ''block_without_braces''),
     ([Kind IF, Kind WHILE, Kind DO, Kind FOR, Kind WITH], ''ambiguous_nested_stmt''),
     ([Kind INC, Kind DEC], ''inc_dec_within_stmt''),
     ([Kind COMMA], ''comma_separated_stmts''),
     ([Kind SEMI], ''empty_statement''),
     ([Kind LC], ''empty_statement_''),
     ([Kind CASE, Kind DEFAULT], ''missing_break''),
     ([Kind CASE, Kind DEFAULT], ''missing_break_for_last_case''),
     ([Kind INC], ''multiple_plus_minus''),
     ([Kind DEC], ''multiple_plus_minus_''),
     ([KindOp NAME OP_SETNAME], ''useless_assign''),
     ([Kind BREAK, Kind CONTINUE, Kind RETURN, Kind THROW], ''unreachable_code''),
     ([Kind LC], ''meaningless_block__''),
     ([KindOp UNARYOP OP_VOID], ''useless_void''),
     ([KindOp LP OP_CALL], ''parseint_missing_radix''),
     ([Kind NUMBER], ''leading_decimal_point''),
     ([Kind NUMBER], ''trailing_decimal_point''),
     ([Kind NUMBER], ''octal_number''),
     ([Kind RB], ''trailing_comma_in_array''),
     ([Kind STRING], ''useless_quotes''),
     ([], ''mismatch_ctrl_comments''),
     ([], ''redeclared_var''),
     ([], ''undeclared_identifier''),
     ([], ''jsl_cc_not_understood''),
     ([], ''nested_comment''),
     ([], ''legacy_cc_not_understood''),
     ([], ''var_hides_arg''),
     ([], ''duplicate_formal''),
     ([], ''missing_semicolon''),
     ([], ''ambiguous_newline''),
     ([], ''missing_option_explicit''),
     ([], ''partial_option_explicit''),
     ([], ''dup_option_explicit'')
    ]"

text \<open>Loading the module applies the decorators one after the other; the first exception ends it.\<close>

fun load :: "(key list \<times> string) list \<Rightarrow> (key \<times> string) list \<Rightarrow> exn + (key \<times> string) list" where
  "load [] visitors = Inr visitors"
| "load ((args, func_name) # rest) visitors =
    (case lookfor args func_name visitors of
       Inl e \<Rightarrow> Inl e
     | Inr visitors' \<Rightarrow> load rest visitors')"

section \<open>Dispatch\<close>

text \<open>
  Modelled from the spec: the traversal that calls the detectors (the modules
  \<^verbatim>\<open>visitation\<close> and the lint pass are not part of the source at hand). The specification
  has the tree visited in pre-order, children left to right, each detector called on the
  nodes of the kinds it is registered for, a \<^verbatim>\<open>LintWarning\<close> collected as a finding and
  any other exception ending the pass.
\<close>

function preorder :: "lnode \<Rightarrow> lnode list" where
  "preorder node =
     node # concat (map (\<lambda>k. case k of None \<Rightarrow> [] | Some c \<Rightarrow> preorder c) (lkids node))"
  by pat_completeness auto
termination
  by (relation "measure (\<lambda>l. size (fst l))") (auto simp: lkids_size)

declare preorder.simps [simp del]

text \<open>
  Modelled from the spec: the findings of one detector over the nodes it is called on, in
  the order of the calls.
\<close>

fun collect :: "(lnode \<Rightarrow> exn + unit) \<Rightarrow> lnode list \<Rightarrow> exn + lnode option list" where
  "collect detector [] = Inr []"
| "collect detector (n # ns) =
    (case detector n of
       Inr u \<Rightarrow> collect detector ns
     | Inl (LintWarning target) \<Rightarrow>
        (case collect detector ns of Inl e \<Rightarrow> Inl e | Inr found \<Rightarrow> Inr (target # found))
     | Inl e \<Rightarrow> Inl e)"

text \<open>
  Modelled from the spec: one pass of one detector over a tree, given the kinds it is
  registered for.
\<close>

definition visit :: "tok list \<Rightarrow> (lnode \<Rightarrow> exn + unit) \<Rightarrow> lnode \<Rightarrow> exn + lnode option list" where
  "visit kinds detector tree =
     collect detector (filter (\<lambda>n. kind (fst n) \<in> set kinds) (preorder tree))"

section \<open>Trees\<close>

text \<open>A node with the default opcode and no payload, for writing trees down.\<close>

definition mk :: "tok \<Rightarrow> node option list \<Rightarrow> node" where
  "mk k ks = Node k OP_NOP ks [] 0 False"

text \<open>The child in slot \<open>i\<close> of a node, for naming the nodes of a concrete tree.\<close>

definition child :: "lnode \<Rightarrow> nat \<Rightarrow> lnode" where
  "child l i = the (lkids l ! i)"

text \<open>An identifier and a call statement \<^verbatim>\<open>f();\<close>, for writing trees down.\<close>

definition name_node :: "string \<Rightarrow> node" where
  "name_node s = Node NAME OP_NAME [] s 0 False"

definition call_stmt :: "string \<Rightarrow> node" where
  "call_stmt s = mk SEMI [Some (Node LP OP_CALL [Some (name_node s)] [] 0 False)]"

text \<open>\<^verbatim>\<open>try { return; } catch (e) { } finally { throw x; }\<close>\<close>

definition try_return_finally_throw :: node where
  "try_return_finally_throw =
     mk TRY [Some (mk LC [Some (mk RETURN [])]),
             Some (mk RESERVED [Some (mk LEXICALSCOPE
                     [Some (mk CATCH [None, None, Some (mk LC [])])])]),
             Some (mk LC [Some (mk THROW [])])]"

text \<open>
  \<^verbatim>\<open>switch (x) { case 1: switch (y) { default: try { break; } catch (e) { } finally { return; } }
  case 2: f(); break; }\<close>
\<close>

definition switch_try_break_finally_return :: node where
  "switch_try_break_finally_return =
     mk SWITCH
       [Some (name_node ''x''),
        Some (mk LC
          [Some (mk CASE
             [Some (mk NUMBER []),
              Some (mk LC
                [Some (mk SWITCH
                   [Some (name_node ''y''),
                    Some (mk LC
                      [Some (mk DEFAULT
                         [None,
                          Some (mk LC
                            [Some (mk TRY
                               [Some (mk LC [Some (mk BREAK [])]),
                                Some (mk RESERVED [Some (mk LEXICALSCOPE
                                   [Some (mk CATCH [None, None, Some (mk LC [])])])]),
                                Some (mk LC [Some (mk RETURN [None])])])])])])])])]),
           Some (mk CASE
             [Some (mk NUMBER []),
              Some (mk LC [Some (call_stmt ''f''), Some (mk BREAK [])])])])]"

text \<open>\<^verbatim>\<open>{ f(); return; }\<close>\<close>

definition block_call_return :: node where
  "block_call_return =
     mk LC [Some (mk SEMI [Some (mk LP [Some (mk NAME [])])]), Some (mk RETURN [None])]"

text \<open>\<^verbatim>\<open>{ if (c) throw e; return; }\<close>\<close>

definition block_if_throw_return :: node where
  "block_if_throw_return =
     mk LC [Some (mk IF [Some (mk NAME []), Some (mk THROW [Some (mk NAME [])]), None]),
            Some (mk RETURN [None])]"

text \<open>\<^verbatim>\<open>switch (x) { case 1: return; }\<close>\<close>

definition switch_case_return :: node where
  "switch_case_return =
     mk SWITCH [Some (mk NAME []),
                Some (mk LC [Some (mk CASE [Some (mk NUMBER []),
                                            Some (mk LC [Some (mk RETURN [None])])])])]"

text \<open>\<^verbatim>\<open>switch (x) { case 1: f(); break; default: break; }\<close>\<close>

definition switch_breaks_default :: node where
  "switch_breaks_default =
     mk SWITCH [Some (mk NAME []),
                Some (mk LC [Some (mk CASE [Some (mk NUMBER []),
                                            Some (mk LC [Some (mk SEMI [Some (mk LP [])]),
                                                         Some (mk BREAK [])])]),
                             Some (mk DEFAULT [None,
                                            Some (mk LC [Some (mk BREAK [])])])])]"

text \<open>\<^verbatim>\<open>if (a) if (b) f(); else g();\<close> as the only statement of a script.\<close>

definition if_if_else :: node where
  "if_if_else =
     mk LC [Some (mk IF [Some (name_node ''a''),
                         Some (mk IF [Some (name_node ''b''),
                                      Some (call_stmt ''f''),
                                      Some (call_stmt ''g'')]),
                         None])]"

text \<open>\<^verbatim>\<open>if (a) { if (b) f(); } else g();\<close> as the only statement of a script.\<close>

definition if_block_else :: node where
  "if_block_else =
     mk LC [Some (mk IF [Some (name_node ''a''),
                         Some (mk LC [Some (mk IF [Some (name_node ''b''),
                                                   Some (call_stmt ''f''),
                                                   None])]),
                         Some (call_stmt ''g'')])]"

text \<open>\<^verbatim>\<open>switch (x) { case 1: a(); case 2: b(); break; }\<close>\<close>

definition switch_fallthrough :: node where
  "switch_fallthrough =
     mk SWITCH [Some (name_node ''x''),
                Some (mk LC [Some (mk CASE [Some (mk NUMBER []),
                                            Some (mk LC [Some (call_stmt ''a'')])]),
                             Some (mk CASE [Some (mk NUMBER []),
                                            Some (mk LC [Some (call_stmt ''b''),
                                                         Some (mk BREAK [])])])])]"

text \<open>\<^verbatim>\<open>switch (x) { case 1: case 2: b(); break; }\<close>\<close>

definition switch_empty_case :: node where
  "switch_empty_case =
     mk SWITCH [Some (name_node ''x''),
                Some (mk LC [Some (mk CASE [Some (mk NUMBER []), Some (mk LC [])]),
                             Some (mk CASE [Some (mk NUMBER []),
                                            Some (mk LC [Some (call_stmt ''b''),
                                                         Some (mk BREAK [])])])])]"

text \<open>\<^verbatim>\<open>null == 0\<close> and \<^verbatim>\<open>x == 1\<close>\<close>

definition null_eq_zero :: node where
  "null_eq_zero =
     Node EQOP OP_EQ [Some (Node PRIMARY OP_NULL [] [] 0 False),
                      Some (Node NUMBER OP_NOP [] ''0'' 0 False)] [] 0 False"

definition x_eq_one :: node where
  "x_eq_one =
     Node EQOP OP_EQ [Some (name_node ''x''),
                      Some (Node NUMBER OP_NOP [] ''1'' 1 False)] [] 0 False"

text \<open>\<^verbatim>\<open>1.5.toFixed\<close> and the statement \<^verbatim>\<open>1.5;\<close>\<close>

definition number_dot :: node where
  "number_dot = Node DOT OP_GETPROP [Some (Node NUMBER OP_NOP [] ''1.5'' (3 / 2) False)]
                  ''toFixed'' 0 False"

definition number_stmt :: node where
  "number_stmt = mk SEMI [Some (Node NUMBER OP_NOP [] ''1.5'' (3 / 2) False)]"

text \<open>The facts that evaluate the analyzer on a tree written down with \<open>mk\<close>.\<close>

lemmas tree_simps = mk_def child_def lkids_def try_unpack_def get_exit_points.simps

text \<open>The facts that evaluate a detector and the pass on a tree written down.\<close>

lemmas detector_simps =
  visit_def preorder.simps name_node_def call_stmt_def parent_def node_index_def kids_at_def
  ambiguous_else_loop.simps

section \<open>Notions the properties are stated with\<close>

text \<open>
  The shape the \<^verbatim>\<open>tok.TRY\<close> branch unpacks and asserts: three slots, the second a
  \<^verbatim>\<open>RESERVED\<close> node holding a \<^verbatim>\<open>LEXICALSCOPE\<close> node holding a \<^verbatim>\<open>CATCH\<close> node whose
  third child is the \<^verbatim>\<open>LC\<close> block of the handler.
\<close>

definition try_shape :: "lnode \<Rightarrow> lnode \<Rightarrow> lnode \<Rightarrow> lnode option \<Rightarrow> bool" where
  "try_shape node try_blk catch_blk finally_blk =
     (kind (fst node) = TRY \<and>
      (\<exists>c1 c2 c3 ignored1 ignored2.
         lkids node = [Some try_blk, Some c1, finally_blk] \<and>
         kind (fst c1) = RESERVED \<and> lkids c1 = [Some c2] \<and>
         kind (fst c2) = LEXICALSCOPE \<and> lkids c2 = [Some c3] \<and>
         kind (fst c3) = CATCH \<and> lkids c3 = [ignored1, ignored2, Some catch_blk] \<and>
         kind (fst catch_blk) = LC))"

text \<open>
  What one slot of a block contributes: nothing when the slot is empty, the exit points
  of the statement otherwise.
\<close>

definition kid_exit_points :: "lnode option \<Rightarrow> exit_points \<Rightarrow> bool" where
  "kid_exit_points kid S =
     (case kid of None \<Rightarrow> S = {} | Some k \<Rightarrow> get_exit_points k = Inr S)"

text \<open>
  A case of a switch, as the loop over the cases reads it: a node with two slots, the
  value and the body, together with its kind and the exit points of its body.
\<close>

definition case_exit_points :: "lnode option \<Rightarrow> tok \<times> exit_points \<Rightarrow> bool" where
  "case_exit_points c kS =
     (\<exists>n case_val case_stmt.
        c = Some n \<and> lkids n = [case_val, Some case_stmt] \<and>
        kind (fst n) = fst kS \<and> get_exit_points case_stmt = Inr (snd kS))"

text \<open>
  No node of the subtree is a \<^verbatim>\<open>break\<close>, \<^verbatim>\<open>continue\<close>, \<^verbatim>\<open>return\<close> or \<^verbatim>\<open>throw\<close>
  statement.
\<close>

fun no_jump :: "node \<Rightarrow> bool" where
  "no_jump (Node k opc ks a d e) =
     (k \<notin> {BREAK, CONTINUE, RETURN, THROW} \<and>
      (\<forall>c \<in> set ks. case c of None \<Rightarrow> True | Some n \<Rightarrow> no_jump n))"

text \<open>The node itself, then its ancestors from the nearest to the root.\<close>

fun chain :: "lnode \<Rightarrow> lnode list" where
  "chain (t, []) = [(t, [])]"
| "chain (t, (p, i) # anc) = (t, (p, i) # anc) # chain (p, anc)"

text \<open>The node is the second child, the then branch, of an \<^verbatim>\<open>if\<close> node.\<close>

definition then_position :: "lnode \<Rightarrow> bool" where
  "then_position l = (case snd l of [] \<Rightarrow> False | (p, i) # anc \<Rightarrow> kind p = IF \<and> i = 1)"

text \<open>
  The operands the detector looks for: a \<^verbatim>\<open>null\<close>, \<^verbatim>\<open>true\<close> or \<^verbatim>\<open>false\<close> literal, a
  number that is zero, an empty string.
\<close>

definition type_conv_operand :: "node \<Rightarrow> bool" where
  "type_conv_operand k =
     (kind k = PRIMARY \<and> opcode k \<in> {OP_NULL, OP_TRUE, OP_FALSE}
      \<or> kind k = NUMBER \<and> dval k = 0
      \<or> kind k = STRING \<and> atom k = [])"

text \<open>
  The children of a node \<open>p\<close> with ancestors \<open>anc\<close>, from slot \<open>n\<close> on: \<open>lkids\<close> unfolded
  along the list of slots.
\<close>

definition lift_kid :: "node \<Rightarrow> (node \<times> nat) list \<Rightarrow> nat \<Rightarrow> node option \<Rightarrow> lnode option" where
  "lift_kid p anc i k = map_option (\<lambda>c. (c, (p, i) # anc)) k"

definition lift_kids ::
  "node \<Rightarrow> (node \<times> nat) list \<Rightarrow> nat \<Rightarrow> node option list \<Rightarrow> lnode option list" where
  "lift_kids p anc n ks = map (\<lambda>(i, k). lift_kid p anc i k) (enumerate n ks)"

section \<open>Lemmas\<close>

subsection \<open>The branches of the analyzer, one by one\<close>

lemma get_exit_points_LC:
  "kind (fst node) = LC \<Longrightarrow> get_exit_points node = lc_loop (lkids node) {None}"
  by (subst get_exit_points.simps) simp

lemma get_exit_points_IF:
  "kind (fst node) = IF \<Longrightarrow>
   get_exit_points node =
     (case lkids node of
        [cond_, if_, else_] \<Rightarrow>
          (case if_ of
             None \<Rightarrow> Inl AttributeError
           | Some i \<Rightarrow>
              (case get_exit_points i of
                 Inl e \<Rightarrow> Inl e
               | Inr exit_points \<Rightarrow>
                  (case else_ of
                     None \<Rightarrow> Inr exit_points
                   | Some el \<Rightarrow>
                      (case get_exit_points el of
                         Inl e \<Rightarrow> Inl e
                       | Inr else_points \<Rightarrow> Inr (exit_points \<union> else_points)))))
      | _ \<Rightarrow> Inl ValueError)"
  by (subst get_exit_points.simps) simp

lemma get_exit_points_SWITCH:
  "kind (fst node) = SWITCH \<Longrightarrow>
   get_exit_points node =
     (case lkids node of
        [switch_var, switch_stmts] \<Rightarrow>
          (case switch_stmts of
             None \<Rightarrow> Inl AttributeError
           | Some stmts \<Rightarrow>
              (case switch_loop (lkids stmts) ({None}, False, True) of
                 Inl e \<Rightarrow> Inl e
               | Inr (exit_points, switch_has_default, switch_has_final_fallthru) \<Rightarrow>
                  (if None \<notin> exit_points then Inl KeyError
                   else Inr ((exit_points - {None, Some BREAK}) \<union>
                             (if Some BREAK \<in> exit_points \<or> \<not> switch_has_default
                                 \<or> switch_has_final_fallthru
                              then {None} else {})))))
      | _ \<Rightarrow> Inl ValueError)"
  by (subst get_exit_points.simps)
     (auto simp: Let_def split: list.splits option.splits sum.splits)

lemma get_exit_points_WITH:
  "kind (fst node) = WITH \<Longrightarrow>
   get_exit_points node =
     (case lkids node of
        [] \<Rightarrow> Inl IndexError
      | k # ks \<Rightarrow>
          (case last (k # ks) of
             None \<Rightarrow> Inl AttributeError
           | Some body \<Rightarrow> get_exit_points body))"
  by (subst get_exit_points.simps) simp

lemma get_exit_points_jump:
  "kind (fst node) = BREAK \<Longrightarrow> get_exit_points node = Inr {Some BREAK}"
  "kind (fst node) = RETURN \<Longrightarrow> get_exit_points node = Inr {Some RETURN}"
  "kind (fst node) = THROW \<Longrightarrow> get_exit_points node = Inr {Some THROW}"
  by (subst get_exit_points.simps, simp)+

lemma get_exit_points_other:
  "kind (fst node) \<notin> {LC, IF, SWITCH, BREAK, WITH, RETURN, THROW, TRY} \<Longrightarrow>
   get_exit_points node = Inr {None}"
  by (subst get_exit_points.simps) simp

lemma get_exit_points_TRY_unpack:
  "kind (fst node) = TRY \<Longrightarrow>
   get_exit_points node =
     (case try_unpack node of
        Inl e \<Rightarrow> Inl e
      | Inr (try_, catch_, finally_) \<Rightarrow>
          (case try_ of
             None \<Rightarrow> Inl AttributeError
           | Some t \<Rightarrow>
              (case get_exit_points t of
                 Inl e \<Rightarrow> Inl e
               | Inr try_points \<Rightarrow>
                  (case get_exit_points catch_ of
                     Inl e \<Rightarrow> Inl e
                   | Inr catch_points \<Rightarrow>
                      (case finally_ of
                         None \<Rightarrow> Inr (try_points \<union> catch_points)
                       | Some f \<Rightarrow>
                          (case get_exit_points f of
                             Inl e \<Rightarrow> Inl e
                           | Inr finally_exit_points \<Rightarrow>
                              Inr (if None \<in> finally_exit_points
                                   then (try_points \<union> catch_points)
                                          \<union> (finally_exit_points - {None})
                                   else ((try_points \<union> catch_points) - {None})
                                          \<union> finally_exit_points)))))))"
  by (subst get_exit_points.simps)
     (auto simp: Let_def split: sum.splits option.splits)

lemma get_exit_points_TRY:
  assumes "try_shape node try_blk catch_blk finally_blk"
  shows "get_exit_points node =
    (case get_exit_points try_blk of
       Inl e \<Rightarrow> Inl e
     | Inr try_points \<Rightarrow>
        (case get_exit_points catch_blk of
           Inl e \<Rightarrow> Inl e
         | Inr catch_points \<Rightarrow>
            (case finally_blk of
               None \<Rightarrow> Inr (try_points \<union> catch_points)
             | Some f \<Rightarrow>
                (case get_exit_points f of
                   Inl e \<Rightarrow> Inl e
                 | Inr finally_exit_points \<Rightarrow>
                    (if None \<in> finally_exit_points
                     then Inr ((try_points \<union> catch_points) \<union> (finally_exit_points - {None}))
                     else Inr (((try_points \<union> catch_points) - {None}) \<union> finally_exit_points))))))"
proof -
  from assms have k: "kind (fst node) = TRY"
    and u: "try_unpack node = Inr (Some try_blk, catch_blk, finally_blk)"
    unfolding try_shape_def try_unpack_Inr_iff by blast+
  show ?thesis
    by (subst get_exit_points.simps)
       (auto simp: k u Let_def split: sum.splits option.splits)
qed

text \<open>
  What the analyzer computes for a try/catch node with a finally block. Let Base be the union of the
  exit points of the try block and of the catch block. If the exit points of the finally
  block contain \<^verbatim>\<open>None\<close>, the result is Base together with the finally block's exit
  points other than \<^verbatim>\<open>None\<close>. If they do not, the result is Base without \<^verbatim>\<open>None\<close>
  together with the finally block's exit points: only the normal exit of Base is dropped,
  a break, return or throw of the try or catch block stays in the result.
\<close>

lemma try_finally_exit_points:
  assumes "try_shape node try_blk catch_blk (Some finally_blk)"
    and "get_exit_points try_blk = Inr T"
    and "get_exit_points catch_blk = Inr C"
    and "get_exit_points finally_blk = Inr F"
  shows "get_exit_points node =
           Inr (if None \<in> F then (T \<union> C) \<union> (F - {None}) else ((T \<union> C) - {None}) \<union> F)"
  using assms(2-4) by (simp add: get_exit_points_TRY [OF assms(1)])

text \<open>
  The statement \<^verbatim>\<open>try { return; } catch (e) { } finally { throw x; }\<close> has that
  shape; its exit points are \<^verbatim>\<open>{RETURN, THROW}\<close>.
\<close>

lemma try_finally_exit_points_example:
  "try_shape (try_return_finally_throw, [])
      (child (try_return_finally_throw, []) 0)
      (child (child (child (child (try_return_finally_throw, []) 1) 0) 0) 2)
      (Some (child (try_return_finally_throw, []) 2))
   \<and> get_exit_points (child (try_return_finally_throw, []) 0) = Inr {Some RETURN}
   \<and> get_exit_points (child (child (child (child (try_return_finally_throw, []) 1) 0) 0) 2)
         = Inr {None}
   \<and> get_exit_points (child (try_return_finally_throw, []) 2) = Inr {Some THROW}
   \<and> get_exit_points (try_return_finally_throw, []) = Inr {Some RETURN, Some THROW}"
proof -
  let ?n = "(try_return_finally_throw, [])"
  have shape: "try_shape ?n (child ?n 0) (child (child (child (child ?n 1) 0) 0) 2)
                 (Some (child ?n 2))"
    by (simp add: try_shape_def try_return_finally_throw_def mk_def child_def lkids_def)
  have t: "get_exit_points (child ?n 0) = Inr {Some RETURN}"
    by (simp add: try_return_finally_throw_def mk_def child_def lkids_def
          get_exit_points.simps)
  have c: "get_exit_points (child (child (child (child ?n 1) 0) 0) 2) = Inr {None}"
    by (simp add: try_return_finally_throw_def mk_def child_def lkids_def
          get_exit_points.simps)
  have f: "get_exit_points (child ?n 2) = Inr {Some THROW}"
    by (simp add: try_return_finally_throw_def mk_def child_def lkids_def
          get_exit_points.simps)
  from try_finally_exit_points [OF shape t c f]
  have "get_exit_points ?n = Inr {Some RETURN, Some THROW}" by auto
  with shape t c f show ?thesis by simp
qed

subsection \<open>The statements of a block\<close>

lemma lc_loop_step:
  "kid_exit_points kid S \<Longrightarrow>
   lc_loop (kid # rest) exit_points = lc_loop rest ((exit_points - {None}) \<union> S)"
  by (cases kid) (auto simp: kid_exit_points_def)

lemma lc_loop_result:
  "list_all2 kid_exit_points ks Ss \<Longrightarrow>
   lc_loop ks exit_points =
     Inr (if Ss = [] then exit_points
          else ((exit_points \<union> \<Union>(set (butlast Ss))) - {None}) \<union> last Ss)"
proof (induction ks Ss arbitrary: exit_points rule: list_all2_induct)
  case Nil
  show ?case by simp
next
  case (Cons k ks S Ss)
  have step: "lc_loop (k # ks) exit_points = lc_loop ks ((exit_points - {None}) \<union> S)"
    using Cons.hyps(1) by (rule lc_loop_step)
  show ?case
  proof (cases "Ss = []")
    case True
    then show ?thesis unfolding step Cons.IH by simp
  next
    case False
    have "(((exit_points - {None}) \<union> S) \<union> \<Union>(set (butlast Ss))) - {None}
                 = ((exit_points \<union> \<Union>(set (butlast (S # Ss)))) - {None})"
      using False by auto
    then show ?thesis unfolding step Cons.IH using False by simp
  qed
qed

lemma block_exit_points_aux:
  assumes "kind (fst node) = LC" and "list_all2 kid_exit_points (lkids node) Ss"
  shows "get_exit_points node =
           Inr (if Ss = [] then {None}
                else (\<Union>(set Ss) - {None}) \<union> (if None \<in> last Ss then {None} else {}))"
proof (cases "Ss = []")
  case True
  then show ?thesis
    using assms by (simp add: get_exit_points_LC lc_loop_result)
next
  case False
  then have "set Ss = set (butlast Ss) \<union> {last Ss}"
    using append_butlast_last_id [of Ss] set_append [of "butlast Ss" "[last Ss]"] by simp
  then have "\<Union>(set Ss) = \<Union>(set (butlast Ss)) \<union> last Ss"
    by auto
  then show ?thesis
    using assms False by (auto simp: get_exit_points_LC lc_loop_result)
qed

subsection \<open>Subtrees without a jump\<close>

lemma lkids_kids:
  assumes "Some c \<in> set (lkids l)"
  shows "Some (fst c) \<in> set (kids (fst l))"
proof -
  from assms obtain i where
    i: "i < length (kids (fst l))"
       "Some c = map_option (\<lambda>c. (c, (fst l, i) # snd l)) (kids (fst l) ! i)"
    by (auto simp: lkids_def in_set_enumerate_eq)
  from i(2) have "kids (fst l) ! i = Some (fst c)"
    by (cases "kids (fst l) ! i") auto
  with i(1) show ?thesis by (metis nth_mem)
qed

lemma no_jump_kind: "no_jump n \<Longrightarrow> kind n \<notin> {BREAK, CONTINUE, RETURN, THROW}"
  by (cases n) simp

lemma no_jump_child:
  assumes "no_jump (fst l)" and "Some c \<in> set (lkids l)"
  shows "no_jump (fst c)"
proof -
  from assms(2) have "Some (fst c) \<in> set (kids (fst l))" by (rule lkids_kids)
  with assms(1) show ?thesis by (cases "fst l") force
qed

lemma quiet_lc_loop:
  assumes "\<And>c S. Some c \<in> set ks \<Longrightarrow> get_exit_points c = Inr S \<Longrightarrow> S \<subseteq> {None}"
    and "exit_points \<subseteq> {None}" and "lc_loop ks exit_points = Inr S"
  shows "S \<subseteq> {None}"
  using assms
proof (induction ks arbitrary: exit_points)
  case Nil
  then show ?case by simp
next
  case (Cons k ks)
  show ?case
  proof (cases k)
    case None
    with Cons.prems(3) have "lc_loop ks (exit_points - {None}) = Inr S"
      by (simp split: if_splits)
    moreover have "exit_points - {None} \<subseteq> {None}" using Cons.prems(2) by auto
    ultimately show ?thesis using Cons.IH Cons.prems(1) by (meson list.set_intros(2))
  next
    case (Some c)
    with Cons.prems(3) obtain K where
      K: "get_exit_points c = Inr K" "lc_loop ks ((exit_points - {None}) \<union> K) = Inr S"
      by (auto split: if_splits sum.splits)
    from K(1) Some Cons.prems(1) have "K \<subseteq> {None}" by (meson list.set_intros(1))
    with Cons.prems(2) have "(exit_points - {None}) \<union> K \<subseteq> {None}" by auto
    with K(2) show ?thesis using Cons.IH Cons.prems(1) by (meson list.set_intros(2))
  qed
qed

lemma quiet_switch_loop:
  assumes "\<And>n b S. Some n \<in> set cs \<Longrightarrow> Some b \<in> set (lkids n) \<Longrightarrow>
                   get_exit_points b = Inr S \<Longrightarrow> S \<subseteq> {None}"
    and "fst st \<subseteq> {None}" and "switch_loop cs st = Inr st'"
  shows "fst st' \<subseteq> {None}"
  using assms
proof (induction cs arbitrary: st)
  case Nil
  then show ?case by simp
next
  case (Cons c cs)
  obtain ep d f where st: "st = (ep, d, f)" by (cases st)
  from Cons.prems(3) st obtain n v b K where
    n: "c = Some n" "lkids n = [v, Some b]" "get_exit_points b = Inr K"
       "switch_loop cs (ep \<union> K, d \<or> kind (fst n) = DEFAULT, None \<in> K) = Inr st'"
    by (auto split: option.splits list.splits sum.splits)
  have "K \<subseteq> {None}" using Cons.prems(1) [of n b K] n(1-3) by simp
  with Cons.prems(2) st have "fst (ep \<union> K, d \<or> kind (fst n) = DEFAULT, None \<in> K) \<subseteq> {None}"
    by auto
  with n(4) show ?case using Cons.IH Cons.prems(1) by (meson list.set_intros(2))
qed

lemma no_jump_exit_points:
  "no_jump (fst l) \<Longrightarrow> get_exit_points l = Inr S \<Longrightarrow> S \<subseteq> {None}"
proof (induction l arbitrary: S rule: measure_induct_rule [of "\<lambda>l. size (fst l)"])
  case (less l)
  note nj = less.prems(1) and res = less.prems(2)
  have kid: "no_jump (fst c) \<and> size (fst c) < size (fst p)"
    if "no_jump (fst p)" "Some c \<in> set (lkids p)" for c p
    using that no_jump_child lkids_size by blast
  have kidIH: "K \<subseteq> {None}"
    if "Some c \<in> set (lkids l)" "get_exit_points c = Inr K" for c K
    using less.IH [of c K] kid [OF nj that(1)] that(2) by simp
  consider (LC) "kind (fst l) = LC" | (IF) "kind (fst l) = IF"
    | (SWITCH) "kind (fst l) = SWITCH" | (WITH) "kind (fst l) = WITH"
    | (TRY) "kind (fst l) = TRY"
    | (jump) "kind (fst l) \<in> {BREAK, RETURN, THROW}"
    | (other) "kind (fst l) \<notin> {LC, IF, SWITCH, BREAK, WITH, RETURN, THROW, TRY}"
    by auto
  then show ?case
  proof cases
    case LC
    with res have "lc_loop (lkids l) {None} = Inr S" by (simp add: get_exit_points_LC)
    then show ?thesis using quiet_lc_loop [of "lkids l" "{None}" S] kidIH by blast
  next
    case IF
    from res obtain v i e K where
      k: "lkids l = [v, Some i, e]" "get_exit_points i = Inr K"
      and S: "e = None \<and> S = K \<or>
              (\<exists>el K'. e = Some el \<and> get_exit_points el = Inr K' \<and> S = K \<union> K')"
      unfolding get_exit_points_IF [OF IF]
      by (auto split: list.splits option.splits sum.splits)
    have K: "K \<subseteq> {None}" using kidIH [of i K] k by simp
    from S show ?thesis
    proof (elim disjE exE conjE)
      assume "S = K"
      with K show ?thesis by simp
    next
      fix el K'
      assume e: "e = Some el" "get_exit_points el = Inr K'" "S = K \<union> K'"
      have "K' \<subseteq> {None}" using kidIH [of el K'] k(1) e(1,2) by simp
      with K e(3) show ?thesis by auto
    qed
  next
    case SWITCH
    from res obtain v stmts ep d f where
      k: "lkids l = [v, Some stmts]"
         "switch_loop (lkids stmts) ({None}, False, True) = Inr (ep, d, f)"
      and S: "S = (ep - {None, Some BREAK}) \<union>
                  (if Some BREAK \<in> ep \<or> \<not> d \<or> f then {None} else {})"
      unfolding get_exit_points_SWITCH [OF SWITCH]
      by (auto split: list.splits option.splits sum.splits if_splits)
    have st: "no_jump (fst stmts) \<and> size (fst stmts) < size (fst l)"
      using kid [OF nj, of stmts] k(1) by simp
    have "K \<subseteq> {None}"
      if "Some n \<in> set (lkids stmts)" "Some b \<in> set (lkids n)" "get_exit_points b = Inr K"
      for n b K
    proof -
      have n: "no_jump (fst n) \<and> size (fst n) < size (fst stmts)"
        using kid [of stmts n] st that(1) by simp
      have b: "no_jump (fst b) \<and> size (fst b) < size (fst n)"
        using kid [of n b] n that(2) by simp
      from st n b have "size (fst b) < size (fst l)" by simp
      with less.IH [of b K] b that(3) show ?thesis by simp
    qed
    then have "fst (ep, d, f) \<subseteq> {None}"
      using quiet_switch_loop [of "lkids stmts" "({None}, False, True)" "(ep, d, f)"] k(2)
      by simp
    with S show ?thesis by auto
  next
    case WITH
    from res obtain b where
      k: "lkids l \<noteq> []" "last (lkids l) = Some b" "get_exit_points b = Inr S"
      unfolding get_exit_points_WITH [OF WITH]
      by (auto split: list.splits option.splits)
    from k(1,2) have "Some b \<in> set (lkids l)" using last_in_set by metis
    then show ?thesis using kidIH k(3) by blast
  next
    case TRY
    from res obtain t c f T C where
      u: "try_unpack l = Inr (Some t, c, f)"
      and r: "get_exit_points t = Inr T" "get_exit_points c = Inr C"
      and S: "f = None \<and> S = T \<union> C \<or>
              (\<exists>x F. f = Some x \<and> get_exit_points x = Inr F \<and>
                 S = (if None \<in> F then (T \<union> C) \<union> (F - {None})
                      else ((T \<union> C) - {None}) \<union> F))"
      unfolding get_exit_points_TRY_unpack [OF TRY]
      by (auto split: sum.splits option.splits)
    from u obtain c1 c2 c3 i1 i2 where
      sh: "lkids l = [Some t, Some c1, f]" "lkids c1 = [Some c2]" "lkids c2 = [Some c3]"
          "lkids c3 = [i1, i2, Some c]"
      unfolding try_unpack_Inr_iff by blast
    have "no_jump (fst c1)" using kid [OF nj, of c1] sh(1) by simp
    then have "no_jump (fst c2)" using kid [of c1 c2] sh(2) by simp
    then have "no_jump (fst c3)" using kid [of c2 c3] sh(3) by simp
    then have "no_jump (fst c)" using kid [of c3 c] sh(4) by simp
    then have C: "C \<subseteq> {None}"
      using less.IH [of c C] try_unpack_size(1) [OF u] r(2) by simp
    have T: "T \<subseteq> {None}" using kidIH [of t T] sh(1) r(1) by simp
    from S show ?thesis
    proof (elim disjE exE conjE)
      assume "S = T \<union> C"
      with T C show ?thesis by auto
    next
      fix x F
      assume f: "f = Some x" "get_exit_points x = Inr F"
        "S = (if None \<in> F then (T \<union> C) \<union> (F - {None}) else ((T \<union> C) - {None}) \<union> F)"
      have "F \<subseteq> {None}" using kidIH [of x F] sh(1) f(1,2) by simp
      with T C f(3) show ?thesis by (auto split: if_splits)
    qed
  next
    case jump
    with no_jump_kind [OF nj] show ?thesis by auto
  next
    case other
    with res show ?thesis by (simp add: get_exit_points_other)
  qed
qed

subsection \<open>The cases of a switch\<close>

lemma switch_loop_step:
  "case_exit_points c kS \<Longrightarrow>
   switch_loop (c # rest) (ep, d, f) =
     switch_loop rest (ep \<union> snd kS, d \<or> fst kS = DEFAULT, None \<in> snd kS)"
  by (auto simp: case_exit_points_def)

lemma switch_loop_result:
  "list_all2 case_exit_points cs kSs \<Longrightarrow>
   switch_loop cs (ep, d, f) =
     Inr (ep \<union> \<Union>(snd ` set kSs), d \<or> DEFAULT \<in> fst ` set kSs,
          if kSs = [] then f else None \<in> snd (last kSs))"
proof (induction cs kSs arbitrary: ep d f rule: list_all2_induct)
  case Nil
  show ?case by simp
next
  case (Cons c cs kS kSs)
  have step: "switch_loop (c # cs) (ep, d, f) =
     switch_loop cs (ep \<union> snd kS, d \<or> fst kS = DEFAULT, None \<in> snd kS)"
    using Cons.hyps(1) by (rule switch_loop_step)
  show ?case unfolding step Cons.IH by auto
qed

lemma switch_exit_points_aux:
  assumes "kind (fst node) = SWITCH"
    and "lkids node = [switch_var, Some switch_stmts]"
    and "list_all2 case_exit_points (lkids switch_stmts) kSs"
  shows "get_exit_points node =
     Inr ((\<Union>(snd ` set kSs) - {None, Some BREAK}) \<union>
          (if Some BREAK \<in> \<Union>(snd ` set kSs) \<or> DEFAULT \<notin> fst ` set kSs
              \<or> kSs = [] \<or> None \<in> snd (last kSs)
           then {None} else {}))"
  unfolding get_exit_points_SWITCH [OF assms(1)] assms(2)
  by (simp add: switch_loop_result [OF assms(3)])

lemma case_kinds:
  assumes "list_all2 case_exit_points cs kSs"
  shows "DEFAULT \<in> fst ` set kSs \<longleftrightarrow> (\<exists>c. Some c \<in> set cs \<and> kind (fst c) = DEFAULT)"
  using assms
  by (induction cs kSs rule: list_all2_induct) (auto simp: case_exit_points_def)

subsection \<open>The analyzer does not read the ancestors\<close>

lemma lkids_lift: "lkids (t, anc) = lift_kids t anc 0 (kids t)"
  by (simp add: lkids_def lift_kids_def lift_kid_def)

lemma lift_kids_simps:
  "lift_kids p anc n [] = []"
  "lift_kids p anc n (k # ks) = lift_kid p anc n k # lift_kids p anc (Suc n) ks"
  by (simp_all add: lift_kids_def)

lemma case_lift_kids:
  "(case lift_kids p anc n ks of [] \<Rightarrow> D | x # xs \<Rightarrow> G x xs) =
   (case ks of [] \<Rightarrow> D | k # ks' \<Rightarrow> G (lift_kid p anc n k) (lift_kids p anc (Suc n) ks'))"
  by (cases ks) (simp_all add: lift_kids_simps)

lemma case_lift_kid:
  "(case lift_kid p anc i k of None \<Rightarrow> D | Some c \<Rightarrow> G c) =
   (case k of None \<Rightarrow> D | Some c \<Rightarrow> G (c, (p, i) # anc))"
  by (cases k) (simp_all add: lift_kid_def)

lemma lift_kids_Nil_iff: "lift_kids p anc n ks = [] \<longleftrightarrow> ks = []"
  by (cases ks) (simp_all add: lift_kids_simps)

lemma last_lift_kids:
  "ks \<noteq> [] \<Longrightarrow>
   last (lift_kids p anc n ks) = lift_kid p anc (n + length ks - 1) (last ks)"
proof (induction ks arbitrary: n)
  case Nil
  then show ?case by simp
next
  case (Cons k ks)
  show ?case
  proof (cases "ks = []")
    case True
    then show ?thesis by (simp add: lift_kids_simps)
  next
    case False
    with Cons.IH [of "Suc n"] show ?thesis
      by (simp add: lift_kids_simps lift_kids_Nil_iff)
  qed
qed

lemma size_kids: "Some c \<in> set (kids t) \<Longrightarrow> size c < size t"
  using size_list_member [of c "kids t" size] by (cases t) simp

text \<open>
  The unpacking of a try node gives the same error, or the same three subtrees, under
  any two chains of ancestors.
\<close>

lemma try_unpack_ctx:
  "rel_sum (=)
     (rel_prod (rel_option (\<lambda>x y. fst x = fst y))
        (rel_prod (\<lambda>x y. fst x = fst y) (rel_option (\<lambda>x y. fst x = fst y))))
     (try_unpack (t, anc)) (try_unpack (t, anc'))"
  by (simp add: try_unpack_def lkids_lift case_lift_kids case_lift_kid lift_kid_def
        option.rel_map option.rel_refl split: list.split option.split)

lemma lc_loop_ctx:
  assumes "\<And>c a. Some c \<in> set ks \<Longrightarrow> get_exit_points (c, a) = get_exit_points (c, [])"
  shows "lc_loop (lift_kids p anc n ks) exit_points =
         lc_loop (lift_kids p' anc' n' ks) exit_points"
  using assms
proof (induction ks arbitrary: n n' exit_points)
  case Nil
  show ?case by (simp add: lift_kids_simps)
next
  case (Cons k ks)
  have IH: "lc_loop (lift_kids p anc m ks) E = lc_loop (lift_kids p' anc' m' ks) E"
    for m m' E
    using Cons.IH Cons.prems by (meson list.set_intros(2))
  show ?case
  proof (cases k)
    case None
    then show ?thesis
      by (simp add: lift_kids_simps lift_kid_def IH [of "Suc n" _ "Suc n'"])
  next
    case (Some c)
    have "get_exit_points (c, (p, n) # anc) = get_exit_points (c, (p', n') # anc')"
      using Cons.prems [of c "(p, n) # anc"] Cons.prems [of c "(p', n') # anc'"] Some
      by simp
    with Some show ?thesis
      by (simp add: lift_kids_simps lift_kid_def IH [of "Suc n" _ "Suc n'"] split: sum.split)
  qed
qed

lemma switch_loop_ctx:
  assumes "\<And>n b a. Some n \<in> set ks \<Longrightarrow> Some b \<in> set (kids n) \<Longrightarrow>
             get_exit_points (b, a) = get_exit_points (b, [])"
  shows "switch_loop (lift_kids p anc n ks) st = switch_loop (lift_kids p' anc' n' ks) st"
  using assms
proof (induction ks arbitrary: n n' st)
  case Nil
  show ?case by (simp add: lift_kids_simps)
next
  case (Cons k ks)
  have IH: "switch_loop (lift_kids p anc m ks) s = switch_loop (lift_kids p' anc' m' ks) s"
    for m m' s
    using Cons.IH Cons.prems by (meson list.set_intros(2))
  obtain ep d f where st: "st = (ep, d, f)" by (cases st)
  show ?case
  proof (cases k)
    case None
    then show ?thesis by (simp add: lift_kids_simps lift_kid_def st)
  next
    case (Some c)
    have body: "get_exit_points (b, (c, Suc 0) # (p, n) # anc) =
                get_exit_points (b, (c, Suc 0) # (p', n') # anc')"
      if "Some b \<in> set (kids c)" for b
      using Cons.prems [of c b "(c, Suc 0) # (p, n) # anc"]
            Cons.prems [of c b "(c, Suc 0) # (p', n') # anc'"] Some that
      by simp
    show ?thesis
      unfolding st Some lift_kids_simps
      by (simp add: lift_kid_def lkids_lift case_lift_kids case_lift_kid
            split: list.split option.split)
         (auto simp: body IH [of "Suc n" _ "Suc n'"] split: sum.split)
  qed
qed

lemma get_exit_points_TRY_ctx:
  assumes TRY: "kind t = TRY"
    and IH: "\<And>c a. size c < size t \<Longrightarrow> get_exit_points (c, a) = get_exit_points (c, [])"
  shows "get_exit_points (t, anc) = get_exit_points (t, [])"
proof -
  let ?R = "\<lambda>x y :: lnode. fst x = fst y"
  have rel: "rel_sum (=) (rel_prod (rel_option ?R) (rel_prod ?R (rel_option ?R)))
               (try_unpack (t, anc)) (try_unpack (t, []))"
    by (rule try_unpack_ctx)
  have eq: "get_exit_points x = get_exit_points y"
    if h: "fst x = fst y" "size (fst x) < size t" for x y
  proof -
    obtain x1 x2 y2 where xy: "x = (x1, x2)" "y = (x1, y2)"
      using h(1) by (cases x; cases y) auto
    have "get_exit_points (x1, x2) = get_exit_points (x1, [])"
      using h(2) xy by (intro IH) simp
    moreover have "get_exit_points (x1, y2) = get_exit_points (x1, [])"
      using h(2) xy by (intro IH) simp
    ultimately show ?thesis unfolding xy by (rule trans [OF _ sym])
  qed
  show ?thesis
  proof (cases "try_unpack (t, anc)")
    case (Inl e)
    with rel have "try_unpack (t, []) = Inl e"
      by (cases "try_unpack (t, [])") auto
    with Inl TRY show ?thesis by (simp add: get_exit_points_TRY_unpack)
  next
    case (Inr r)
    obtain a c f where r: "r = (a, c, f)" by (cases r)
    from rel Inr r obtain a' c' f' where
      r': "try_unpack (t, []) = Inr (a', c', f')"
      and R: "rel_option ?R a a'" "fst c = fst c'" "rel_option ?R f f'"
      by (cases "try_unpack (t, [])") auto
    note sz = try_unpack_size [OF Inr [unfolded r], simplified]
    have c: "get_exit_points c = get_exit_points c'"
      using R(2) sz(1) by (rule eq)
    have a: "a = None \<and> a' = None \<or>
             (\<exists>x x'. a = Some x \<and> a' = Some x' \<and> get_exit_points x = get_exit_points x')"
    proof (cases a)
      case None
      with R(1) show ?thesis by (cases a') auto
    next
      case (Some x)
      with R(1) obtain x' where x': "a' = Some x'" "fst x = fst x'" by (cases a') auto
      from sz(2) [OF Some] have "size (fst x) < size t" .
      with x'(2) have "get_exit_points x = get_exit_points x'" by (rule eq)
      with Some x'(1) show ?thesis by blast
    qed
    have f: "f = None \<and> f' = None \<or>
             (\<exists>x x'. f = Some x \<and> f' = Some x' \<and> get_exit_points x = get_exit_points x')"
    proof (cases f)
      case None
      with R(3) show ?thesis by (cases f') auto
    next
      case (Some x)
      with R(3) obtain x' where x': "f' = Some x'" "fst x = fst x'" by (cases f') auto
      from sz(3) [OF Some] have "size (fst x) < size t" .
      with x'(2) have "get_exit_points x = get_exit_points x'" by (rule eq)
      with Some x'(1) show ?thesis by blast
    qed
    have L: "get_exit_points (t, anc) =
        (case a of
           None \<Rightarrow> Inl AttributeError
         | Some x \<Rightarrow>
            (case get_exit_points x of
               Inl e \<Rightarrow> Inl e
             | Inr try_points \<Rightarrow>
                (case get_exit_points c of
                   Inl e \<Rightarrow> Inl e
                 | Inr catch_points \<Rightarrow>
                    (case f of
                       None \<Rightarrow> Inr (try_points \<union> catch_points)
                     | Some y \<Rightarrow>
                        (case get_exit_points y of
                           Inl e \<Rightarrow> Inl e
                         | Inr finally_exit_points \<Rightarrow>
                            Inr (if None \<in> finally_exit_points
                                 then (try_points \<union> catch_points)
                                        \<union> (finally_exit_points - {None})
                                 else ((try_points \<union> catch_points) - {None})
                                        \<union> finally_exit_points))))))"
      by (subst get_exit_points_TRY_unpack) (simp_all add: TRY Inr r)
    have R': "get_exit_points (t, []) =
        (case a' of
           None \<Rightarrow> Inl AttributeError
         | Some x \<Rightarrow>
            (case get_exit_points x of
               Inl e \<Rightarrow> Inl e
             | Inr try_points \<Rightarrow>
                (case get_exit_points c' of
                   Inl e \<Rightarrow> Inl e
                 | Inr catch_points \<Rightarrow>
                    (case f' of
                       None \<Rightarrow> Inr (try_points \<union> catch_points)
                     | Some y \<Rightarrow>
                        (case get_exit_points y of
                           Inl e \<Rightarrow> Inl e
                         | Inr finally_exit_points \<Rightarrow>
                            Inr (if None \<in> finally_exit_points
                                 then (try_points \<union> catch_points)
                                        \<union> (finally_exit_points - {None})
                                 else ((try_points \<union> catch_points) - {None})
                                        \<union> finally_exit_points))))))"
      by (subst get_exit_points_TRY_unpack) (simp_all add: TRY r')
    from a show ?thesis
    proof (elim disjE conjE exE)
      assume "a = None" "a' = None"
      then show ?thesis unfolding L R' by simp
    next
      fix x x'
      assume ax: "a = Some x" "a' = Some x'" "get_exit_points x = get_exit_points x'"
      from f show ?thesis
      proof (elim disjE conjE exE)
        assume "f = None" "f' = None"
        with ax c show ?thesis unfolding L R' by (simp split: sum.split)
      next
        fix y y'
        assume "f = Some y" "f' = Some y'" "get_exit_points y = get_exit_points y'"
        with ax c show ?thesis unfolding L R' by (simp split: sum.split)
      qed
    qed
  qed
qed

lemma get_exit_points_ctx: "get_exit_points (t, anc) = get_exit_points (t, [])"
proof (induction t arbitrary: anc rule: measure_induct_rule [of size])
  case (less t)
  have kid: "get_exit_points (c, x # a) = get_exit_points (c, [])"
    if "Some c \<in> set (kids t)" for c x a
    using less.IH [of c "x # a"] size_kids [OF that] by simp
  consider (LC) "kind t = LC" | (IF) "kind t = IF"
    | (SWITCH) "kind t = SWITCH" | (WITH) "kind t = WITH"
    | (TRY) "kind t = TRY"
    | (jump) "kind t \<in> {BREAK, RETURN, THROW}"
    | (other) "kind t \<notin> {LC, IF, SWITCH, BREAK, WITH, RETURN, THROW, TRY}"
    by auto
  then show ?case
  proof cases
    case LC
    have "lc_loop (lift_kids t anc 0 (kids t)) {None} =
          lc_loop (lift_kids t [] 0 (kids t)) {None}"
      using less.IH size_kids by (intro lc_loop_ctx) blast
    with LC show ?thesis by (simp add: get_exit_points_LC lkids_lift)
  next
    case IF
    then show ?thesis
      by (simp add: get_exit_points_IF lkids_lift case_lift_kids case_lift_kid
            split: list.split option.split)
         (auto simp: kid case_lift_kid split: sum.split option.split)
  next
    case SWITCH
    have "switch_loop (lift_kids s ((t, i) # anc) 0 (kids s)) st =
          switch_loop (lift_kids s [(t, i)] 0 (kids s)) st"
      if "Some s \<in> set (kids t)" for s i st
    proof (intro switch_loop_ctx)
      fix n b a
      assume "Some n \<in> set (kids s)" "Some b \<in> set (kids n)"
      then have "size b < size t"
        using size_kids [of b n] size_kids [of n s] size_kids [OF that] by simp
      then show "get_exit_points (b, a) = get_exit_points (b, [])"
        by (rule less.IH)
    qed
    with SWITCH show ?thesis
      by (simp add: get_exit_points_SWITCH lkids_lift case_lift_kids case_lift_kid
            split: list.split option.split)
  next
    case WITH
    show ?thesis
    proof (cases "kids t = []")
      case True
      with WITH show ?thesis
        by (simp add: get_exit_points_WITH lkids_lift lift_kids_simps)
    next
      case False
      have w: "get_exit_points (t, a) =
            (case last (kids t) of
               None \<Rightarrow> Inl AttributeError
             | Some b \<Rightarrow> get_exit_points (b, (t, length (kids t) - Suc 0) # a))" for a
      proof -
        from False have ne: "lkids (t, a) \<noteq> []" by (simp add: lkids_lift lift_kids_Nil_iff)
        then obtain k ks where "lkids (t, a) = k # ks" by (cases "lkids (t, a)") auto
        then have "get_exit_points (t, a) =
            (case last (lkids (t, a)) of
               None \<Rightarrow> Inl AttributeError | Some body \<Rightarrow> get_exit_points body)"
          using WITH by (simp add: get_exit_points_WITH)
        then show ?thesis
          using False by (simp add: lkids_lift last_lift_kids case_lift_kid)
      qed
      show ?thesis
      proof (cases "last (kids t)")
        case None
        then show ?thesis by (simp add: w)
      next
        case (Some b)
        with False have "Some b \<in> set (kids t)" using last_in_set by metis
        with Some show ?thesis by (simp add: w kid)
      qed
    qed
  next
    case TRY
    then show ?thesis using less.IH by (rule get_exit_points_TRY_ctx)
  next
    case jump
    then show ?thesis by (auto simp: get_exit_points_jump)
  next
    case other
    then show ?thesis by (simp add: get_exit_points_other)
  qed
qed

subsection \<open>Detectors and registration\<close>

lemma chain_hd: "chain l = x # xs \<Longrightarrow> x = l"
  by (cases l rule: chain.cases) auto

lemma ambiguous_else_loop_skip:
  assumes "chain tmp = pre @ b # rest"
    and "\<forall>x \<in> set pre. kind (fst x) \<noteq> LC \<and> \<not> then_position x"
  shows "ambiguous_else_loop (Some tmp) e = ambiguous_else_loop (Some b) e"
  using assms
proof (induction pre arbitrary: tmp)
  case Nil
  then show ?case using chain_hd [of tmp b rest] by simp
next
  case (Cons x pre)
  from Cons.prems(1) have x: "x = tmp" using chain_hd [of tmp x "pre @ b # rest"] by simp
  obtain t anc where tmp: "tmp = (t, anc)" by (cases tmp)
  from Cons.prems(1) tmp obtain p i anc' where
    anc: "anc = (p, i) # anc'" and tl: "chain (p, anc') = pre @ b # rest"
    by (cases anc) auto
  from Cons.prems(2) x tmp anc have "kind t \<noteq> LC" "\<not> (kind p = IF \<and> i = 1)"
    by (auto simp: then_position_def)
  then have "ambiguous_else_loop (Some tmp) e = ambiguous_else_loop (Some (p, anc')) e"
    unfolding tmp anc
    by (subst ambiguous_else_loop.simps) (auto simp: parent_def node_index_def)
  also have "\<dots> = ambiguous_else_loop (Some b) e"
    using tl Cons.prems(2) by (intro Cons.IH) auto
  finally show ?case .
qed

lemma comparison_type_conv_loop_find:
  "comparison_type_conv_loop (map Some ks) =
     (case find (\<lambda>k. type_conv_operand (fst k)) ks of
        None \<Rightarrow> Inr ()
      | Some k \<Rightarrow> Inl (LintWarning (Some k)))"
  by (induction ks) (auto simp: type_conv_operand_def)

lemma load_result:
  "load ds visitors =
     (if \<forall>d \<in> set ds. rstrip_underscore (snd d) \<in> fst ` set warnings
      then Inr (visitors @ concat (map (\<lambda>(args, func_name). map (\<lambda>arg. (arg, func_name)) args) ds))
      else Inl AssertionError)"
proof (induction ds arbitrary: visitors)
  case Nil
  show ?case by simp
next
  case (Cons d ds)
  obtain args func_name where d: "d = (args, func_name)" by (cases d)
  show ?case
    unfolding d
    by (cases "rstrip_underscore func_name \<in> fst ` set warnings")
       (simp_all add: lookfor_def Cons.IH)
qed

lemma decorated_known:
  "\<forall>d \<in> set decorated. rstrip_underscore (snd d) \<in> fst ` set warnings"
  by code_simp

section \<open>Properties\<close>

text \<open>
  C1. The specification has the exit points of a finally block that cannot exit normally
  replace those of the try and catch blocks, and the comment in the source says that the
  other exit points are then irrelevant. The code only takes \<^verbatim>\<open>None\<close> out of them: in
  \<^verbatim>\<open>try { return; } catch (e) { } finally { throw x; }\<close> the \<^verbatim>\<open>return\<close> of the try block
  is still among the exit points. A \<^verbatim>\<open>break\<close> kept this way reaches the enclosing switch:
  in the second tree the inner switch always returns, yet its exit points contain
  \<^verbatim>\<open>None\<close> and \<^verbatim>\<open>missing_break\<close> raises a warning on \<^verbatim>\<open>case 2\<close>.
\<close>

theorem try_finally_keeps_try_exits:
  "get_exit_points (child (try_return_finally_throw, []) 2) = Inr {Some THROW}
   \<and> None \<notin> {Some THROW}
   \<and> get_exit_points (try_return_finally_throw, []) = Inr {Some RETURN, Some THROW}
   \<and> get_exit_points (try_return_finally_throw, []) \<noteq> Inr {Some THROW}
   \<and> get_exit_points
         (child (child (child (child (switch_try_break_finally_return, []) 1) 0) 1) 0)
       = Inr {None, Some RETURN}
   \<and> missing_break (child (child (switch_try_break_finally_return, []) 1) 0)
       = Inl (LintWarning (Some (child (child (switch_try_break_finally_return, []) 1) 1)))"
proof -
  have 1: "get_exit_points (child (try_return_finally_throw, []) 2) = Inr {Some THROW}"
    by (simp add: try_return_finally_throw_def tree_simps)
  have 2: "get_exit_points (try_return_finally_throw, []) = Inr {Some RETURN, Some THROW}"
    by (auto simp: try_return_finally_throw_def tree_simps)
  have 3: "get_exit_points
         (child (child (child (child (switch_try_break_finally_return, []) 1) 0) 1) 0)
       = Inr {None, Some RETURN}"
    by (auto simp: switch_try_break_finally_return_def detector_simps tree_simps)
  have 4: "missing_break (child (child (switch_try_break_finally_return, []) 1) 0)
       = Inl (LintWarning (Some (child (child (switch_try_break_finally_return, []) 1) 1)))"
    by (simp add: switch_try_break_finally_return_def detector_simps tree_simps
          missing_break_def)
  from 2 have 5: "get_exit_points (try_return_finally_throw, []) \<noteq> Inr {Some THROW}"
    by auto
  from 1 2 3 4 5 show ?thesis by simp
qed

text \<open>
  C2 (as amended). For a case or default node that is not the last child of its parent,
  with a block as its body: when the body has at least one statement and its exit points
  contain \<^verbatim>\<open>None\<close>, the detector raises exactly one warning, on the next sibling; when
  the body is empty, or its exit points do not contain \<^verbatim>\<open>None\<close>, it returns without a
  finding.
\<close>

theorem missing_break_next_case:
  assumes "parent node = Some p" and "node_index node = Some i"
    and "i + 1 < length (lkids p)"
    and "kids_at node 1 = Inr (Some case_contents)"
    and "kind (fst case_contents) = LC"
    and "get_exit_points case_contents = Inr exit_points"
  shows "missing_break node =
           (if lkids case_contents \<noteq> [] \<and> None \<in> exit_points
            then Inl (LintWarning (lkids p ! (i + 1)))
            else Inr ())"
proof -
  from assms(3) have "int i \<noteq> int (length (lkids p)) - 1" by simp
  with assms show ?thesis
    by (simp add: missing_break_def kids_at_def)
qed

text \<open>
  In \<^verbatim>\<open>switch (x) { case 1: a(); case 2: b(); break; }\<close> the first case meets every
  hypothesis of C2 and the warning points at the second case; the pass over the case nodes
  gives that one finding.
\<close>

theorem missing_break_next_case_witness:
  "kind (fst (child (child (switch_fallthrough, []) 1) 0)) = CASE
   \<and> get_exit_points (child (child (child (switch_fallthrough, []) 1) 0) 1) = Inr {None}
   \<and> missing_break (child (child (switch_fallthrough, []) 1) 0) =
        Inl (LintWarning (Some (child (child (switch_fallthrough, []) 1) 1)))
   \<and> visit [CASE, DEFAULT] missing_break (switch_fallthrough, []) =
        Inr [Some (child (child (switch_fallthrough, []) 1) 1)]"
proof -
  let ?cases = "child (switch_fallthrough, []) 1"
  let ?n = "child ?cases 0"
  have 1: "parent ?n = Some ?cases"
    by (simp add: switch_fallthrough_def detector_simps tree_simps)
  have 2: "node_index ?n = Some 0"
    by (simp add: switch_fallthrough_def detector_simps tree_simps)
  have 3: "0 + 1 < length (lkids ?cases)"
    by (simp add: switch_fallthrough_def detector_simps tree_simps)
  have 4: "kids_at ?n 1 = Inr (Some (child ?n 1))"
    by (simp add: switch_fallthrough_def detector_simps tree_simps)
  have 5: "kind (fst (child ?n 1)) = LC"
    by (simp add: switch_fallthrough_def detector_simps tree_simps)
  have 6: "get_exit_points (child ?n 1) = Inr {None}"
    by (simp add: switch_fallthrough_def detector_simps tree_simps)
  have 7: "lkids (child ?n 1) \<noteq> []"
    by (simp add: switch_fallthrough_def detector_simps tree_simps)
  have 8: "lkids ?cases ! (0 + 1) = Some (child ?cases 1)"
    by (simp add: switch_fallthrough_def detector_simps tree_simps)
  have 9: "kind (fst ?n) = CASE"
    by (simp add: switch_fallthrough_def detector_simps tree_simps)
  have 10: "visit [CASE, DEFAULT] missing_break (switch_fallthrough, []) =
        Inr [Some (child ?cases 1)]"
    by (simp add: switch_fallthrough_def detector_simps tree_simps missing_break_def)
  from missing_break_next_case [OF 1 2 3 4 5 6] 6 7 8 9 10 show ?thesis by simp
qed

text \<open>
  C2 as the specification states it fails: in \<^verbatim>\<open>switch (x) { case 1: case 2: b(); break; }\<close>
  the first case is not the last, the exit points of its (empty) body contain \<^verbatim>\<open>None\<close>,
  and the detector returns without a finding.
\<close>

theorem missing_break_empty_case_counterexample:
  "kind (fst (child (child (switch_empty_case, []) 1) 0)) = CASE
   \<and> node_index (child (child (switch_empty_case, []) 1) 0) = Some 0
   \<and> length (lkids (child (switch_empty_case, []) 1)) = 2
   \<and> get_exit_points (child (child (child (switch_empty_case, []) 1) 0) 1) = Inr {None}
   \<and> missing_break (child (child (switch_empty_case, []) 1) 0) = Inr ()"
  by (simp add: switch_empty_case_def detector_simps tree_simps missing_break_def)

text \<open>
  C3 (as amended). For a statement block, given the exit points of its statements (an
  empty slot contributes nothing): an empty block gives \<^verbatim>\<open>{None}\<close>; otherwise the result
  is the union of the statements' exit points, with \<^verbatim>\<open>None\<close> a member exactly when it is
  an exit point of the last statement. In particular, when the last statement is a
  \<^verbatim>\<open>return\<close> and no node anywhere inside the other statements is a \<^verbatim>\<open>break\<close>,
  \<^verbatim>\<open>continue\<close>, \<^verbatim>\<open>return\<close> or \<^verbatim>\<open>throw\<close> (and the analyzer returns on each of them), the
  block's exit points are exactly \<^verbatim>\<open>{RETURN}\<close>.
\<close>

theorem block_exit_points:
  assumes "kind (fst node) = LC"
  shows "(\<forall>Ss. list_all2 kid_exit_points (lkids node) Ss \<longrightarrow>
            get_exit_points node =
              Inr (if Ss = [] then {None}
                   else (\<Union>(set Ss) - {None}) \<union> (if None \<in> last Ss then {None} else {})))
       \<and> (\<forall>stmts r.
            lkids node = stmts @ [Some r] \<and> kind (fst r) = RETURN \<and>
            (\<forall>s \<in> set stmts. case s of
                None \<Rightarrow> True
              | Some c \<Rightarrow> no_jump (fst c) \<and> (\<exists>K. get_exit_points c = Inr K))
            \<longrightarrow> get_exit_points node = Inr {Some RETURN})"
proof (intro conjI allI impI)
  fix Ss
  assume "list_all2 kid_exit_points (lkids node) Ss"
  with assms show "get_exit_points node =
      Inr (if Ss = [] then {None}
           else (\<Union>(set Ss) - {None}) \<union> (if None \<in> last Ss then {None} else {}))"
    by (rule block_exit_points_aux)
next
  fix stmts r
  assume a: "lkids node = stmts @ [Some r] \<and> kind (fst r) = RETURN \<and>
            (\<forall>s \<in> set stmts. case s of
                None \<Rightarrow> True
              | Some c \<Rightarrow> no_jump (fst c) \<and> (\<exists>K. get_exit_points c = Inr K))"
  define E where "E = (\<lambda>s. case s of None \<Rightarrow> {} | Some c \<Rightarrow> projr (get_exit_points c))"
  have quiet: "kid_exit_points s (E s) \<and> E s \<subseteq> {None}" if "s \<in> set stmts" for s
  proof (cases s)
    case None
    then show ?thesis by (simp add: E_def kid_exit_points_def)
  next
    case (Some c)
    with a that obtain K where K: "no_jump (fst c)" "get_exit_points c = Inr K" by force
    from K have "K \<subseteq> {None}" by (rule no_jump_exit_points)
    with K(2) Some show ?thesis by (simp add: E_def kid_exit_points_def)
  qed
  then have "list_all2 kid_exit_points stmts (map E stmts)"
    by (simp add: list_all2_map2 list_all2_same)
  moreover have "list_all2 kid_exit_points [Some r] [{Some RETURN}]"
    using a by (simp add: kid_exit_points_def get_exit_points_jump)
  ultimately have "list_all2 kid_exit_points (lkids node) (map E stmts @ [{Some RETURN}])"
    using a by (simp add: list_all2_appendI)
  from block_exit_points_aux [OF assms this]
  have "get_exit_points node = Inr ((\<Union>(E ` set stmts) \<union> {Some RETURN}) - {None})"
    by (simp add: Un_commute)
  moreover have "(\<Union>(E ` set stmts) \<union> {Some RETURN}) - {None} = {Some RETURN}"
    using quiet by auto
  ultimately show "get_exit_points node = Inr {Some RETURN}" by simp
qed

text \<open>The block \<^verbatim>\<open>{ f(); return; }\<close> meets every hypothesis of C3; its exit points are \<^verbatim>\<open>{RETURN}\<close>.\<close>

theorem block_exit_points_witness:
  "kind (fst (block_call_return, [])) = LC
   \<and> lkids (block_call_return, []) =
        [Some (child (block_call_return, []) 0)] @ [Some (child (block_call_return, []) 1)]
   \<and> kind (fst (child (block_call_return, []) 1)) = RETURN
   \<and> no_jump (fst (child (block_call_return, []) 0))
   \<and> get_exit_points (child (block_call_return, []) 0) = Inr {None}
   \<and> list_all2 kid_exit_points (lkids (block_call_return, [])) [{None}, {Some RETURN}]
   \<and> get_exit_points (block_call_return, []) = Inr {Some RETURN}"
proof -
  let ?n = "(block_call_return, [])"
  have k: "kind (fst ?n) = LC" by (simp add: block_call_return_def mk_def)
  have l: "lkids ?n = [Some (child ?n 0)] @ [Some (child ?n 1)]"
    by (simp add: block_call_return_def tree_simps)
  have r: "kind (fst (child ?n 1)) = RETURN"
    by (simp add: block_call_return_def tree_simps)
  have nj: "no_jump (fst (child ?n 0))"
    by (simp add: block_call_return_def tree_simps)
  have e: "get_exit_points (child ?n 0) = Inr {None}"
    by (simp add: block_call_return_def tree_simps)
  have e1: "get_exit_points (child ?n 1) = Inr {Some RETURN}"
    by (simp add: block_call_return_def tree_simps)
  have la: "list_all2 kid_exit_points (lkids ?n) [{None}, {Some RETURN}]"
    unfolding l using e e1 by (simp add: kid_exit_points_def)
  have "get_exit_points ?n = Inr {Some RETURN}"
    using block_exit_points [OF k] l r nj e by force
  with k l r nj e la show ?thesis by blast
qed

text \<open>
  C3 as the specification states it fails: in \<^verbatim>\<open>{ if (c) throw e; return; }\<close> the last
  statement is a \<^verbatim>\<open>return\<close> and the only other statement is an \<^verbatim>\<open>if\<close>, which is none of
  \<^verbatim>\<open>break\<close>, \<^verbatim>\<open>continue\<close>, \<^verbatim>\<open>return\<close>, \<^verbatim>\<open>throw\<close>; the exit points are
  \<^verbatim>\<open>{THROW, RETURN}\<close>.
\<close>

theorem block_return_last_counterexample:
  "kind (fst (block_if_throw_return, [])) = LC
   \<and> lkids (block_if_throw_return, []) =
        [Some (child (block_if_throw_return, []) 0), Some (child (block_if_throw_return, []) 1)]
   \<and> kind (fst (child (block_if_throw_return, []) 1)) = RETURN
   \<and> kind (fst (child (block_if_throw_return, []) 0)) = IF
   \<and> IF \<notin> {BREAK, CONTINUE, RETURN, THROW}
   \<and> get_exit_points (block_if_throw_return, []) = Inr {Some THROW, Some RETURN}
   \<and> get_exit_points (block_if_throw_return, []) \<noteq> Inr {Some RETURN}"
  by (auto simp: block_if_throw_return_def tree_simps)

text \<open>
  C4. For a switch node whose cases are all well formed (two slots, a body the analyzer
  returns on) and none of which is a \<^verbatim>\<open>default\<close>, the analyzer returns a set that
  contains \<^verbatim>\<open>None\<close>, whatever the exit points of the bodies are.
\<close>

theorem switch_without_default:
  assumes "kind (fst node) = SWITCH"
    and "lkids node = [switch_var, Some switch_stmts]"
    and "list_all2 case_exit_points (lkids switch_stmts) kSs"
    and "\<forall>c. Some c \<in> set (lkids switch_stmts) \<longrightarrow> kind (fst c) \<noteq> DEFAULT"
  shows "\<exists>S. get_exit_points node = Inr S \<and> None \<in> S"
proof -
  from assms(4) have "DEFAULT \<notin> fst ` set kSs"
    unfolding case_kinds [OF assms(3)] by blast
  then show ?thesis
    unfolding switch_exit_points_aux [OF assms(1-3)] by simp
qed

text \<open>The switch \<^verbatim>\<open>switch (x) { case 1: return; }\<close> meets every hypothesis of C4.\<close>

theorem switch_without_default_witness:
  "kind (fst (switch_case_return, [])) = SWITCH
   \<and> list_all2 case_exit_points (lkids (child (switch_case_return, []) 1))
        [(CASE, {Some RETURN})]
   \<and> (\<exists>S. get_exit_points (switch_case_return, []) = Inr S \<and> None \<in> S)
   \<and> get_exit_points (switch_case_return, []) = Inr {None, Some RETURN}"
proof -
  let ?n = "(switch_case_return, [])"
  have k: "kind (fst ?n) = SWITCH" by (simp add: switch_case_return_def mk_def)
  have l: "lkids ?n = [Some (child ?n 0), Some (child ?n 1)]"
    by (simp add: switch_case_return_def tree_simps)
  have c: "list_all2 case_exit_points (lkids (child ?n 1)) [(CASE, {Some RETURN})]"
    by (simp add: switch_case_return_def tree_simps case_exit_points_def)
  have d: "\<forall>c. Some c \<in> set (lkids (child ?n 1)) \<longrightarrow> kind (fst c) \<noteq> DEFAULT"
    by (simp add: switch_case_return_def tree_simps)
  have v: "get_exit_points ?n = Inr {None, Some RETURN}"
    by (auto simp: switch_case_return_def tree_simps)
  from switch_without_default [OF k l c d] k c v show ?thesis by blast
qed

text \<open>
  C5. For a switch node with a \<^verbatim>\<open>default\<close> case in which the exit points of every case
  body are \<^verbatim>\<open>{BREAK}\<close>, the analyzer returns exactly \<^verbatim>\<open>{None}\<close>.
\<close>

theorem switch_all_break:
  assumes "kind (fst node) = SWITCH"
    and "lkids node = [switch_var, Some switch_stmts]"
    and "list_all2 case_exit_points (lkids switch_stmts) kSs"
    and "\<forall>kS \<in> set kSs. snd kS = {Some BREAK}"
    and "\<exists>c. Some c \<in> set (lkids switch_stmts) \<and> kind (fst c) = DEFAULT"
  shows "get_exit_points node = Inr {None}"
proof -
  from assms(5) have d: "DEFAULT \<in> fst ` set kSs"
    unfolding case_kinds [OF assms(3)] by blast
  then have ne: "kSs \<noteq> []" by auto
  then have "last kSs \<in> set kSs" by simp
  with assms(4) have last: "snd (last kSs) = {Some BREAK}" by blast
  from ne assms(4) have u: "\<Union>(snd ` set kSs) = {Some BREAK}"
    by (cases kSs) auto
  show ?thesis
    unfolding switch_exit_points_aux [OF assms(1-3)] u using d ne last by simp
qed

text \<open>
  The switch \<^verbatim>\<open>switch (x) { case 1: f(); break; default: break; }\<close> meets every hypothesis
  of C5.
\<close>

theorem switch_all_break_witness:
  "kind (fst (switch_breaks_default, [])) = SWITCH
   \<and> list_all2 case_exit_points (lkids (child (switch_breaks_default, []) 1))
        [(CASE, {Some BREAK}), (DEFAULT, {Some BREAK})]
   \<and> get_exit_points (switch_breaks_default, []) = Inr {None}"
proof -
  let ?n = "(switch_breaks_default, [])"
  have k: "kind (fst ?n) = SWITCH" by (simp add: switch_breaks_default_def mk_def)
  have l: "lkids ?n = [Some (child ?n 0), Some (child ?n 1)]"
    by (simp add: switch_breaks_default_def tree_simps)
  have c: "list_all2 case_exit_points (lkids (child ?n 1))
             [(CASE, {Some BREAK}), (DEFAULT, {Some BREAK})]"
    by (simp add: switch_breaks_default_def tree_simps case_exit_points_def)
  have b: "\<forall>kS \<in> set [(CASE, {Some BREAK}), (DEFAULT, {Some BREAK})]. snd kS = {Some BREAK}"
    by simp
  have d: "\<exists>c. Some c \<in> set (lkids (child ?n 1)) \<and> kind (fst c) = DEFAULT"
    by (auto simp: switch_breaks_default_def tree_simps)
  from switch_all_break [OF k l c b d] k c show ?thesis by blast
qed

text \<open>
  C6 (as amended). Called on a comparison node whose operands are all present, the
  detector raises exactly one warning, on the first operand that is a \<^verbatim>\<open>null\<close>,
  \<^verbatim>\<open>true\<close> or \<^verbatim>\<open>false\<close> literal, a zero number or an empty string; when no operand is
  one, it returns without a finding.
\<close>

theorem comparison_type_conv_first:
  assumes "lkids node = map Some operands"
  shows "comparison_type_conv node =
           (case find (\<lambda>k. type_conv_operand (fst k)) operands of
              None \<Rightarrow> Inr ()
            | Some k \<Rightarrow> Inl (LintWarning (Some k)))"
  unfolding comparison_type_conv_def assms
  by (rule comparison_type_conv_loop_find)

text \<open>
  In \<^verbatim>\<open>null == 0\<close> the warning points at \<^verbatim>\<open>null\<close>; \<^verbatim>\<open>x == 1\<close> gives no finding.
\<close>

theorem comparison_type_conv_first_witness:
  "lkids (null_eq_zero, []) = map Some [child (null_eq_zero, []) 0, child (null_eq_zero, []) 1]
   \<and> comparison_type_conv (null_eq_zero, []) =
        Inl (LintWarning (Some (child (null_eq_zero, []) 0)))
   \<and> lkids (x_eq_one, []) = map Some [child (x_eq_one, []) 0, child (x_eq_one, []) 1]
   \<and> comparison_type_conv (x_eq_one, []) = Inr ()"
proof -
  have 1: "lkids (null_eq_zero, []) =
             map Some [child (null_eq_zero, []) 0, child (null_eq_zero, []) 1]"
    by (simp add: null_eq_zero_def detector_simps tree_simps)
  have 2: "lkids (x_eq_one, []) = map Some [child (x_eq_one, []) 0, child (x_eq_one, []) 1]"
    by (simp add: x_eq_one_def detector_simps tree_simps)
  have 3: "type_conv_operand (fst (child (null_eq_zero, []) 0))"
    by (simp add: null_eq_zero_def detector_simps tree_simps type_conv_operand_def)
  have 4: "\<not> type_conv_operand (fst (child (x_eq_one, []) 0))"
          "\<not> type_conv_operand (fst (child (x_eq_one, []) 1))"
    by (simp_all add: x_eq_one_def detector_simps tree_simps type_conv_operand_def)
  from comparison_type_conv_first [OF 1] comparison_type_conv_first [OF 2] 1 2 3 4
  show ?thesis by simp
qed

text \<open>
  C6 as the specification states it fails: in \<^verbatim>\<open>null == 0\<close> the second operand is a zero
  number, and the one warning the detector raises points at the first operand, not at it.
\<close>

theorem comparison_type_conv_second_operand_counterexample:
  "kind (fst (null_eq_zero, [])) = EQOP \<and> opcode (fst (null_eq_zero, [])) = OP_EQ
   \<and> kind (fst (child (null_eq_zero, []) 1)) = NUMBER
   \<and> dval (fst (child (null_eq_zero, []) 1)) = 0
   \<and> comparison_type_conv (null_eq_zero, []) =
        Inl (LintWarning (Some (child (null_eq_zero, []) 0)))
   \<and> child (null_eq_zero, []) 0 \<noteq> child (null_eq_zero, []) 1"
  by (simp add: null_eq_zero_def detector_simps tree_simps comparison_type_conv_def)

text \<open>
  C7. For an \<^verbatim>\<open>if\<close> node with an else branch, walking up from the node itself: if the
  first node on the way that is a block or stands in the then position of an \<^verbatim>\<open>if\<close> is a
  block, the detector returns without a finding; if it is not a block and stands in the
  then position of an \<^verbatim>\<open>if\<close>, the detector raises a warning on the else branch of the
  node it started from. On the tree of \<^verbatim>\<open>if (a) if (b) f(); else g();\<close> the pass over
  the \<^verbatim>\<open>if\<close> nodes gives exactly one finding, on the statement \<^verbatim>\<open>g();\<close>; on the tree of
  \<^verbatim>\<open>if (a) { if (b) f(); } else g();\<close> it gives none.
\<close>

theorem ambiguous_else_stmt_walk:
  "(\<forall>node condition then_stmt else_stmt pre b rest.
      lkids node = [condition, then_stmt, Some else_stmt] \<and>
      chain node = pre @ b # rest \<and>
      (\<forall>x \<in> set pre. kind (fst x) \<noteq> LC \<and> \<not> then_position x) \<longrightarrow>
        (kind (fst b) = LC \<longrightarrow> ambiguous_else_stmt node = Inr ()) \<and>
        (kind (fst b) \<noteq> LC \<and> then_position b \<longrightarrow>
           ambiguous_else_stmt node = Inl (LintWarning (Some else_stmt))))
   \<and> visit [IF] ambiguous_else_stmt (if_if_else, []) =
         Inr [Some (child (child (child (if_if_else, []) 0) 1) 2)]
   \<and> visit [IF] ambiguous_else_stmt (if_block_else, []) = Inr []"
proof (intro conjI allI impI)
  fix node condition then_stmt else_stmt pre b rest
  assume a: "lkids node = [condition, then_stmt, Some else_stmt] \<and>
      chain node = pre @ b # rest \<and>
      (\<forall>x \<in> set pre. kind (fst x) \<noteq> LC \<and> \<not> then_position x)"
  then have "ambiguous_else_loop (Some node) else_stmt =
             ambiguous_else_loop (Some b) else_stmt"
    by (intro ambiguous_else_loop_skip [of node pre b rest]) auto
  with a have walk: "ambiguous_else_stmt node = ambiguous_else_loop (Some b) else_stmt"
    by (simp add: ambiguous_else_stmt_def)
  {
    assume "kind (fst b) = LC"
    then show "ambiguous_else_stmt node = Inr ()"
      unfolding walk by (simp add: ambiguous_else_loop.simps)
  }
  {
    assume "kind (fst b) \<noteq> LC \<and> then_position b"
    then show "ambiguous_else_stmt node = Inl (LintWarning (Some else_stmt))"
      unfolding walk
      by (subst ambiguous_else_loop.simps)
         (auto simp: then_position_def parent_def node_index_def split: list.splits)
  }
next
  show "visit [IF] ambiguous_else_stmt (if_if_else, []) =
         Inr [Some (child (child (child (if_if_else, []) 0) 1) 2)]"
    by (simp add: if_if_else_def detector_simps tree_simps ambiguous_else_stmt_def)
next
  show "visit [IF] ambiguous_else_stmt (if_block_else, []) = Inr []"
    by (simp add: if_block_else_def detector_simps tree_simps ambiguous_else_stmt_def)
qed

text \<open>
  The inner \<^verbatim>\<open>if\<close> of \<^verbatim>\<open>if (a) if (b) f(); else g();\<close> stands in the then position of
  the outer one; the outer \<^verbatim>\<open>if\<close> of \<^verbatim>\<open>if (a) { if (b) f(); } else g();\<close> reaches the
  block of the script first.
\<close>

theorem ambiguous_else_stmt_walk_witness:
  "then_position (child (child (if_if_else, []) 0) 1)
   \<and> kind (fst (child (child (if_if_else, []) 0) 1)) = IF
   \<and> ambiguous_else_stmt (child (child (if_if_else, []) 0) 1) =
        Inl (LintWarning (Some (child (child (child (if_if_else, []) 0) 1) 2)))
   \<and> \<not> then_position (child (if_block_else, []) 0)
   \<and> kind (fst (if_block_else, [])) = LC
   \<and> ambiguous_else_stmt (child (if_block_else, []) 0) = Inr ()"
proof -
  let ?n = "child (child (if_if_else, []) 0) 1"
  let ?m = "child (if_block_else, []) 0"
  have n1: "lkids ?n = [Some (child ?n 0), Some (child ?n 1), Some (child ?n 2)]"
    by (simp add: if_if_else_def detector_simps tree_simps)
  have n2: "chain ?n = [] @ ?n # [child (if_if_else, []) 0, (if_if_else, [])]"
    by (simp add: if_if_else_def detector_simps tree_simps)
  have n3: "kind (fst ?n) \<noteq> LC \<and> then_position ?n"
    by (simp add: if_if_else_def detector_simps tree_simps then_position_def)
  have m1: "lkids ?m = [Some (child ?m 0), Some (child ?m 1), Some (child ?m 2)]"
    by (simp add: if_block_else_def detector_simps tree_simps)
  have m2: "chain ?m = [?m] @ (if_block_else, []) # []"
    by (simp add: if_block_else_def detector_simps tree_simps)
  have m3: "\<forall>x \<in> set [?m]. kind (fst x) \<noteq> LC \<and> \<not> then_position x"
    by (simp add: if_block_else_def detector_simps tree_simps then_position_def)
  have m4: "kind (fst (if_block_else, [])) = LC"
    by (simp add: if_block_else_def mk_def)
  have k: "kind (fst ?n) = IF"
    by (simp add: if_if_else_def detector_simps tree_simps)
  note walk = ambiguous_else_stmt_walk [THEN conjunct1, rule_format]
  have "ambiguous_else_stmt ?n = Inl (LintWarning (Some (child ?n 2)))"
    using walk [of ?n "Some (child ?n 0)" "Some (child ?n 1)" "child ?n 2" "[]" ?n
                   "[child (if_if_else, []) 0, (if_if_else, [])]"]
          n1 n2 n3
    by simp
  moreover have "ambiguous_else_stmt ?m = Inr ()"
    using walk [of ?m "Some (child ?m 0)" "Some (child ?m 1)" "child ?m 2" "[?m]"
                   "(if_block_else, [])" "[]"]
          m1 m2 m3 m4
    by simp
  ultimately show ?thesis using n3 m3 m4 k by simp
qed

text \<open>
  C8. The analyzer is a function of the subtree alone: the same subtree under any two
  chains of ancestors (different parents, different slots, or none at all) has the same
  exit points, and the same exception where the analyzer raises. Two calls on one node
  are the case of equal chains.
\<close>

theorem get_exit_points_context_free:
  "get_exit_points (t, anc) = get_exit_points (t, anc')"
proof -
  have "get_exit_points (t, anc) = get_exit_points (t, [])"
    by (rule get_exit_points_ctx)
  also have "\<dots> = get_exit_points (t, anc')"
    by (rule get_exit_points_ctx [symmetric])
  finally show ?thesis .
qed

text \<open>
  The block \<^verbatim>\<open>{ return; }\<close> has the same exit points as the try block of a try
  statement and on its own.
\<close>

theorem get_exit_points_context_free_witness:
  "fst (child (try_return_finally_throw, []) 0) = mk LC [Some (mk RETURN [])]
   \<and> snd (child (try_return_finally_throw, []) 0) \<noteq> []
   \<and> get_exit_points (child (try_return_finally_throw, []) 0) =
       get_exit_points (mk LC [Some (mk RETURN [])], [])"
proof -
  have c: "child (try_return_finally_throw, []) 0 =
             (mk LC [Some (mk RETURN [])], [(try_return_finally_throw, 0)])"
    by (simp add: try_return_finally_throw_def mk_def child_def lkids_def)
  show ?thesis
    unfolding c
    using get_exit_points_context_free
            [of "mk LC [Some (mk RETURN [])]" "[(try_return_finally_throw, 0)]" "[]"]
    by simp
qed

text \<open>
  C9. Loading the module fails, with the \<^verbatim>\<open>AssertionError\<close> of \<^verbatim>\<open>lookfor\<close>, exactly when
  the warning of some decorated function is not a key of the dictionary, and gives the
  list of visitors otherwise; no tree is involved. Every function the module decorates,
  the ones decorated with an empty \<^verbatim>\<open>@lookfor()\<close> among them, has its warning in the
  dictionary, so loading the module as it is succeeds.
\<close>

theorem load_fails_iff_unknown_warning:
  "(\<forall>ds visitors.
      (load ds visitors = Inl AssertionError \<longleftrightarrow>
         (\<exists>d \<in> set ds. rstrip_underscore (snd d) \<notin> fst ` set warnings)) \<and>
      ((\<exists>v. load ds visitors = Inr v) \<longleftrightarrow>
         (\<forall>d \<in> set ds. rstrip_underscore (snd d) \<in> fst ` set warnings)))
   \<and> (\<forall>d \<in> set decorated. rstrip_underscore (snd d) \<in> fst ` set warnings)
   \<and> (\<exists>v. load decorated [] = Inr v)
   \<and> ([], ''mismatch_ctrl_comments'') \<in> set decorated
   \<and> ([], ''dup_option_explicit'') \<in> set decorated"
proof (intro conjI allI)
  fix ds visitors
  show "load ds visitors = Inl AssertionError \<longleftrightarrow>
         (\<exists>d \<in> set ds. rstrip_underscore (snd d) \<notin> fst ` set warnings)"
    unfolding load_result by auto
  show "(\<exists>v. load ds visitors = Inr v) \<longleftrightarrow>
         (\<forall>d \<in> set ds. rstrip_underscore (snd d) \<in> fst ` set warnings)"
    unfolding load_result by auto
next
  show "\<forall>d \<in> set decorated. rstrip_underscore (snd d) \<in> fst ` set warnings"
    by (rule decorated_known)
next
  show "\<exists>v. load decorated [] = Inr v"
    unfolding load_result using decorated_known by simp
next
  show "([], ''mismatch_ctrl_comments'') \<in> set decorated"
    by (simp add: decorated_def)
next
  show "([], ''dup_option_explicit'') \<in> set decorated"
    by (simp add: decorated_def)
qed

text \<open>
  A function named \<^verbatim>\<open>no_such_warning\<close> decorated after a known one makes the loading
  fail; the module as it is loads.
\<close>

theorem load_fails_iff_unknown_warning_witness:
  "rstrip_underscore ''no_such_warning'' \<notin> fst ` set warnings
   \<and> load [([Kind LC], ''empty_statement_''), ([Kind IF], ''no_such_warning'')] []
        = Inl AssertionError
   \<and> (\<exists>v. load decorated [] = Inr v)"
proof -
  have u: "rstrip_underscore ''no_such_warning'' \<notin> fst ` set warnings"
    by code_simp
  then have "\<exists>d \<in> set [([Kind LC], ''empty_statement_''), ([Kind IF], ''no_such_warning'')].
               rstrip_underscore (snd d) \<notin> fst ` set warnings"
    by simp
  with load_fails_iff_unknown_warning
  have "load [([Kind LC], ''empty_statement_''), ([Kind IF], ''no_such_warning'')] []
          = Inl AssertionError"
    by blast
  with u load_fails_iff_unknown_warning show ?thesis by blast
qed

text \<open>
  C10. For a number node whose parent is a \<^verbatim>\<open>tok.DOT\<close> node the detector raises a warning
  on the number whatever its text is; the test for a text that ends with a point decides
  only when the parent is of another kind.
\<close>

theorem trailing_decimal_point_dot_parent:
  assumes "parent node = Some p"
  shows "(kind (fst p) = DOT \<longrightarrow>
            trailing_decimal_point node = Inl (LintWarning (Some node)))
       \<and> (kind (fst p) \<noteq> DOT \<longrightarrow>
            trailing_decimal_point node =
              (if endswith (atom (fst node)) ''.'' then Inl (LintWarning (Some node))
               else Inr ()))"
  using assms by (simp add: trailing_decimal_point_def)

text \<open>
  In \<^verbatim>\<open>1.5.toFixed\<close> the number is the child of a \<^verbatim>\<open>tok.DOT\<close> node and gets the warning
  though its text does not end with a point; the same number as a statement of its own
  gets none.
\<close>

theorem trailing_decimal_point_dot_parent_witness:
  "parent (child (number_dot, []) 0) = Some (number_dot, [])
   \<and> kind number_dot = DOT
   \<and> \<not> endswith (atom (fst (child (number_dot, []) 0))) ''.''
   \<and> trailing_decimal_point (child (number_dot, []) 0) =
        Inl (LintWarning (Some (child (number_dot, []) 0)))
   \<and> parent (child (number_stmt, []) 0) = Some (number_stmt, [])
   \<and> kind number_stmt = SEMI
   \<and> trailing_decimal_point (child (number_stmt, []) 0) = Inr ()"
proof -
  have 1: "parent (child (number_dot, []) 0) = Some (number_dot, [])"
    by (simp add: number_dot_def detector_simps tree_simps)
  have 2: "kind (fst (number_dot, [])) = DOT" by (simp add: number_dot_def)
  have 3: "\<not> endswith (atom (fst (child (number_dot, []) 0))) ''.''"
    by (simp add: number_dot_def detector_simps tree_simps endswith_def)
  have 4: "parent (child (number_stmt, []) 0) = Some (number_stmt, [])"
    by (simp add: number_stmt_def detector_simps tree_simps)
  have 5: "kind (fst (number_stmt, [])) \<noteq> DOT" "kind number_stmt = SEMI"
    by (simp_all add: number_stmt_def mk_def)
  have 6: "\<not> endswith (atom (fst (child (number_stmt, []) 0))) ''.''"
    by (simp add: number_stmt_def detector_simps tree_simps endswith_def)
  from trailing_decimal_point_dot_parent [OF 1] trailing_decimal_point_dot_parent [OF 4]
       1 2 3 4 5 6
  show ?thesis by simp
qed

end
